theory Spec2Isabelle
  imports
    Complex_Main
    "HOL-Library.Char_ord"
    "HOL-Library.List_Lexorder"
    "HOL-Library.Product_Lexorder"
    "HOL-Library.Multiset"
begin

section \<open>Python string primitives used by numbering\_tool.py\<close>

text \<open>
  Python strings are modelled as \<^typ>\<open>string\<close>; the character classes below are the
  ASCII part of Python's \<open>str.isdigit\<close>, \<open>str.isalpha\<close>, \<open>str.isspace\<close>,
  \<open>str.lower\<close> and \<open>str.upper\<close>, so the development covers file names, configuration
  lines and prompt answers written in ASCII.
\<close>

definition is_digit :: "char \<Rightarrow> bool" where
  "is_digit c = (CHR ''0'' \<le> c \<and> c \<le> CHR ''9'')"

definition is_alpha :: "char \<Rightarrow> bool" where
  "is_alpha c = ((CHR ''a'' \<le> c \<and> c \<le> CHR ''z'') \<or> (CHR ''A'' \<le> c \<and> c \<le> CHR ''Z''))"

definition is_space :: "char \<Rightarrow> bool" where
  "is_space c = (of_char c \<in> {9, 10, 11, 12, 13, 28, 29, 30, 31, 32 :: nat})"

definition lower_char :: "char \<Rightarrow> char" where
  "lower_char c =
     (if CHR ''A'' \<le> c \<and> c \<le> CHR ''Z'' then char_of (of_char c + 32 :: nat) else c)"

definition upper_char :: "char \<Rightarrow> char" where
  "upper_char c =
     (if CHR ''a'' \<le> c \<and> c \<le> CHR ''z'' then char_of (of_char c - 32 :: nat) else c)"

definition lower :: "string \<Rightarrow> string" where
  "lower s = map lower_char s"


text \<open>\<open>s.isdigit()\<close>: false on the empty string.\<close>

definition isdigit :: "string \<Rightarrow> bool" where
  "isdigit s = (s \<noteq> [] \<and> list_all is_digit s)"

text \<open>\<open>s.strip()\<close>: whitespace removed at both ends.\<close>

definition strip :: "string \<Rightarrow> string" where
  "strip s = rev (dropWhile is_space (rev (dropWhile is_space s)))"

text \<open>\<open>s.startswith(p)\<close>.\<close>

definition startswith :: "string \<Rightarrow> string \<Rightarrow> bool" where
  "startswith s p = (take (length p) s = p)"

text \<open>\<open>s.split(sep)\<close> for a one-character separator: never the empty list.\<close>

fun split_on :: "char \<Rightarrow> string \<Rightarrow> string list" where
  "split_on sep [] = [[]]"
| "split_on sep (c # cs) =
     (if c = sep then [] # split_on sep cs
      else (case split_on sep cs of
              [] \<Rightarrow> [[c]]
            | w # ws \<Rightarrow> (c # w) # ws))"

text \<open>\<open>s.split(sep, 1)\<close> when \<open>sep\<close> occurs in \<open>s\<close>: the text before the first
  separator and the text after it.\<close>

definition split_once :: "char \<Rightarrow> string \<Rightarrow> string \<times> string" where
  "split_once sep s = (takeWhile (\<lambda>c. c \<noteq> sep) s, drop 1 (dropWhile (\<lambda>c. c \<noteq> sep) s))"

subsection \<open>Integers and decimal strings\<close>

definition digit_val :: "char \<Rightarrow> int" where
  "digit_val c = int (of_char c - 48 :: nat)"

text \<open>The value of a string of decimal digits, most significant first.\<close>

definition int_of_digits :: "string \<Rightarrow> int" where
  "int_of_digits s = foldl (\<lambda>acc c. 10 * acc + digit_val c) 0 s"

text \<open>The body of an integer literal accepted by \<open>int(s)\<close>: decimal digits, with
  single underscores allowed between two digits.\<close>

fun valid_body :: "string \<Rightarrow> bool" where
  "valid_body [] = False"
| "valid_body [c] = is_digit c"
| "valid_body (c # d # cs) =
     (is_digit c \<and> (if d = CHR ''_'' then valid_body cs else valid_body (d # cs)))"

definition body_value :: "string \<Rightarrow> int" where
  "body_value s = int_of_digits (filter (\<lambda>c. c \<noteq> CHR ''_'') s)"

text \<open>\<open>int(s)\<close> in base 10; \<open>None\<close> is \<open>ValueError\<close>. Surrounding whitespace is
  dropped, then one optional sign, then the body. The interpreter's limit on the
  number of digits of the string (4300 by default) is left out.\<close>

definition py_int :: "string \<Rightarrow> int option" where
  "py_int s =
     (case strip s of
        [] \<Rightarrow> None
      | c # cs \<Rightarrow>
          if c = CHR ''-'' then (if valid_body cs then Some (- body_value cs) else None)
          else if c = CHR ''+'' then (if valid_body cs then Some (body_value cs) else None)
          else if valid_body (c # cs) then Some (body_value (c # cs)) else None)"

text \<open>\<open>str(n)\<close> for an integer.\<close>

definition digit_char :: "nat \<Rightarrow> char" where
  "digit_char d = char_of (48 + d)"

fun str_nat :: "nat \<Rightarrow> string" where
  "str_nat n = (if n < 10 then [digit_char n] else str_nat (n div 10) @ [digit_char (n mod 10)])"

declare str_nat.simps [simp del]

definition str_int :: "int \<Rightarrow> string" where
  "str_int n = (if n < 0 then CHR ''-'' # str_nat (nat (- n)) else str_nat (nat n))"

text \<open>\<open>s.zfill(width)\<close>: zeros are inserted after a leading sign; a string already
  \<open>width\<close> long, or longer, is returned as it is.\<close>

definition zfill :: "string \<Rightarrow> int \<Rightarrow> string" where
  "zfill s width =
     (if width \<le> int (length s) then s
      else (let fill = replicate (nat (width - int (length s))) (CHR ''0'')
            in case s of
                 [] \<Rightarrow> fill
               | c # cs \<Rightarrow> if c = CHR ''+'' \<or> c = CHR ''-'' then c # fill @ cs else fill @ s))"

section \<open>Label formatting\<close>

definition format_number :: "int \<Rightarrow> int \<Rightarrow> string" where
  "format_number number digits = zfill (str_int number) digits"

section \<open>File ordering\<close>

text \<open>\<open>Path(name).stem\<close> of pathlib: the name without its last suffix; a name whose
  only dot is its first or its last character has no suffix.\<close>

definition rfind :: "char \<Rightarrow> string \<Rightarrow> nat option" where
  "rfind c s =
     (if c \<in> set s then Some (length s - 1 - length (takeWhile (\<lambda>d. d \<noteq> c) (rev s)))
      else None)"

definition stem :: "string \<Rightarrow> string" where
  "stem name =
     (case rfind (CHR ''.'') name of
        None \<Rightarrow> name
      | Some i \<Rightarrow> if 0 < i \<and> i + 1 < length name then take i name else name)"

text \<open>
  A sort key is the tuple \<open>(rank, value)\<close>, where the value is an \<open>int\<close> for rank 0 and
  a \<open>str\<close> for ranks 1 and 2. Python compares tuples lexicographically and strings by
  code point. An \<open>int\<close> is never compared with a \<open>str\<close> by the sort, because the second
  components are compared only under equal ranks; the order below places \<open>KInt\<close> before
  \<open>KStr\<close> to be total.
\<close>

datatype key_value = KInt int | KStr string

fun key_value_le :: "key_value \<Rightarrow> key_value \<Rightarrow> bool" where
  "key_value_le (KInt a) (KInt b) = (a \<le> b)"
| "key_value_le (KStr a) (KStr b) = (a \<le> b)"
| "key_value_le (KInt a) (KStr b) = True"
| "key_value_le (KStr a) (KInt b) = False"

instantiation key_value :: linorder
begin

definition less_eq_key_value :: "key_value \<Rightarrow> key_value \<Rightarrow> bool" where
  "less_eq_key_value x y = key_value_le x y"

definition less_key_value :: "key_value \<Rightarrow> key_value \<Rightarrow> bool" where
  "less_key_value x y = (key_value_le x y \<and> \<not> key_value_le y x)"

instance
proof
  fix x y z :: key_value
  show "(x < y) = (x \<le> y \<and> \<not> y \<le> x)"
    by (simp add: less_key_value_def less_eq_key_value_def)
  show "x \<le> x"
    by (cases x) (simp_all add: less_eq_key_value_def)
  show "x \<le> y \<Longrightarrow> y \<le> z \<Longrightarrow> x \<le> z"
    by (cases x; cases y; cases z) (simp_all add: less_eq_key_value_def)
  show "x \<le> y \<Longrightarrow> y \<le> x \<Longrightarrow> x = y"
    by (cases x; cases y) (simp_all add: less_eq_key_value_def)
  show "x \<le> y \<or> y \<le> x"
    by (cases x; cases y) (auto simp add: less_eq_key_value_def)
qed

end

type_synonym sort_key = "int \<times> key_value"

text \<open>\<open>int(prefix)\<close> is reached only when \<open>prefix.isdigit()\<close> holds, where it is the
  value of the digit string and cannot raise. \<open>split\<close> never returns an empty list
  (\<open>split_on_nonempty\<close> below), so the two \<open>[0]\<close> cannot raise either, and
  \<open>prefix[0]\<close> is read only from a non-empty prefix.\<close>

definition extract_prefix_sort_key :: "string \<Rightarrow> sort_key" where
  "extract_prefix_sort_key filename =
     (let name = stem filename;
          prefix = hd (split_on (CHR ''-'') (hd (split_on (CHR ''_'') name)))
      in if isdigit prefix then (0, KInt (int_of_digits prefix))
         else if prefix \<noteq> [] \<and> is_alpha (hd prefix) then (1, KStr (lower prefix))
         else (2, KStr (if prefix \<noteq> [] then lower prefix else [])))"

section \<open>Errors and prompts\<close>

datatype error =
    ConfigurationMissing
  | InputMissing
  | Cancelled
  | KeyError string
  | ReadFailure
  | PageProcessingFailure nat
  | WriteFailure


definition and_then :: "error + 'a \<Rightarrow> ('a \<Rightarrow> error + 'b) \<Rightarrow> error + 'b" where
  "and_then r f = (case r of Inl e \<Rightarrow> Inl e | Inr v \<Rightarrow> f v)"

section \<open>Configuration\<close>

type_synonym config = "string \<rightharpoonup> int"

definition int_keys :: "string list" where
  "int_keys = [''X1'', ''Y1'', ''X2'', ''Y2'', ''DIGITS'', ''PAD'']"

definition bool_keys :: "string list" where
  "bool_keys = [''DRAW_BOX'', ''DRAW_CIRCLE'']"

definition required :: "string list" where
  "required = [''X1'', ''Y1'', ''X2'', ''Y2'', ''DIGITS'', ''PAD'', ''DRAW_BOX'', ''DRAW_CIRCLE'']"

text \<open>
  The body of the loop over the lines of the file, in two parts. \<open>parse_line\<close> is the
  reading of a line: it is stripped; a blank line, a line starting with \<open>#\<close> and a line
  without \<open>=\<close> give nothing; any other line is split at its first \<open>=\<close> into a key
  and a value, both stripped. \<open>config_line\<close> then stores the value under a recognized
  key.
\<close>

definition parse_line :: "string \<Rightarrow> (string \<times> string) option" where
  "parse_line raw =
     (let line = strip raw
      in if line = [] \<or> startswith line ''#'' then None
         else if CHR ''='' \<in> set line then
           (let kv = split_once (CHR ''='') line
            in Some (strip (fst kv), strip (snd kv)))
         else None)"

definition config_line :: "config \<Rightarrow> string \<Rightarrow> config" where
  "config_line config raw =
     (case parse_line raw of
        None \<Rightarrow> config
      | Some (key, val) \<Rightarrow>
          if key \<in> set int_keys then
            config(key \<mapsto> (case py_int val of Some n \<Rightarrow> n | None \<Rightarrow> 0))
          else if key \<in> set bool_keys then
            config(key \<mapsto> (if val = ''1'' then 1 else 0))
          else config)"

text \<open>The loop over \<open>required\<close> that stores 0 under every key not yet in the dict.\<close>

definition fill_required :: "config \<Rightarrow> config" where
  "fill_required config =
     foldl (\<lambda>c key. if c key = None then c(key \<mapsto> 0) else c) config required"

text \<open>The file is its list of lines; \<open>None\<close> is a file that does not exist, where the
  program exits with status 1.\<close>

definition load_config :: "string list option \<Rightarrow> error + config" where
  "load_config file =
     (case file of
        None \<Rightarrow> Inl ConfigurationMissing
      | Some lines \<Rightarrow> Inr (fill_required (foldl config_line Map.empty lines)))"

definition getitem :: "config \<Rightarrow> string \<Rightarrow> error + int" where
  "getitem config key = (case config key of None \<Rightarrow> Inl (KeyError key) | Some v \<Rightarrow> Inr v)"

section \<open>File selection\<close>


section \<open>Overlay rendering\<close>

text \<open>
  The canvas is the list of drawing calls made on it, in order, with the page size it
  was created for. Coordinates are reals. \<open>string_width\<close> stands for the font
  metrics \<open>c.stringWidth(t, "Helvetica-Bold", 12)\<close> of the rendering library.
\<close>

datatype draw_op =
    is_Rect: Rect real real real real
  | is_Circle: Circle real real real
  | is_DrawString: DrawString real real string

record overlay =
  pagesize :: "real \<times> real"
  ops :: "draw_op list"

text \<open>The block that draws one label; the source has it twice, with \<open>X1, Y1, number1\<close>
  and with \<open>X2, Y2, number2\<close>.\<close>

definition draw_label ::
  "config \<Rightarrow> (string \<Rightarrow> real) \<Rightarrow> string \<Rightarrow> string \<Rightarrow> int \<Rightarrow> error + draw_op list" where
  "draw_label config string_width xkey ykey number =
     and_then (getitem config xkey) (\<lambda>x.
     and_then (getitem config ykey) (\<lambda>y.
     and_then (getitem config ''DIGITS'') (\<lambda>digits.
       let t = format_number number digits;
           w = string_width t;
           h = 12
       in and_then (getitem config ''DRAW_BOX'') (\<lambda>box.
          and_then
            (if box \<noteq> 0 then
               and_then (getitem config ''PAD'') (\<lambda>pad.
                 Inr [Rect (of_int x - of_int pad) (of_int y - of_int pad)
                        (w + of_int pad * 2) (h + of_int pad * 2)])
             else
               and_then (getitem config ''DRAW_CIRCLE'') (\<lambda>circle.
                 if circle \<noteq> 0 then
                   and_then (getitem config ''PAD'') (\<lambda>pad.
                     Inr [Circle (of_int x + w / 2) (of_int y + h / 2)
                            (max w h / 2 + of_int pad)])
                 else Inr []))
            (\<lambda>decoration. Inr (decoration @ [DrawString (of_int x) (of_int y) t]))))))"

definition create_number_overlay ::
  "int \<Rightarrow> int \<Rightarrow> config \<Rightarrow> (string \<Rightarrow> real) \<Rightarrow> real \<Rightarrow> real \<Rightarrow> error + overlay" where
  "create_number_overlay number1 number2 config string_width page_width page_height =
     and_then (draw_label config string_width ''X1'' ''Y1'' number1) (\<lambda>first.
     and_then (draw_label config string_width ''X2'' ''Y2'' number2) (\<lambda>second.
       Inr \<lparr>pagesize = (page_width, page_height), ops = first @ second\<rparr>))"

section \<open>Processing one document\<close>

text \<open>
  A page of an input document has its media box and \<open>composable\<close>, which says whether
  the PDF primitives of the \<open>try\<close> block (reading the overlay, merging it, adding the
  page to the writer) succeed on it. A document says whether \<open>PdfReader\<close> can open it
  and whether its output file can be created; when it cannot, nothing is written.
\<close>

record page =
  page_width :: real
  page_height :: real
  composable :: bool

record document =
  doc_name :: string
  readable :: bool
  doc_pages :: "page list"
  writable :: bool

record numbered_page =
  source :: page
  label :: "int \<times> int"
  stamp :: overlay

type_synonym files = "string \<rightharpoonup> numbered_page list"

text \<open>
  The loop over the pages: \<open>current_number\<close>, the 1-based \<open>page_index\<close>, the pages left
  and the pages added to the writer so far. The two labels are formatted with
  \<open>config['DIGITS']\<close> before the \<open>try\<close> block; any exception inside the \<open>try\<close> block
  is raised again as the failure of that page.
\<close>

fun process_pages ::
  "config \<Rightarrow> (string \<Rightarrow> real) \<Rightarrow> int \<Rightarrow> nat \<Rightarrow> page list \<Rightarrow> numbered_page list
     \<Rightarrow> error + (numbered_page list \<times> int)" where
  "process_pages config string_width current_number page_index [] writer =
     Inr (writer, current_number)"
| "process_pages config string_width current_number page_index (p # ps) writer =
     (let num1 = current_number;
          num2 = current_number + 1;
          current_number = current_number + 2
      in and_then (getitem config ''DIGITS'') (\<lambda>digits.
           case create_number_overlay num1 num2 config string_width
                  (page_width p) (page_height p) of
             Inl e \<Rightarrow> Inl (PageProcessingFailure page_index)
           | Inr overlay_page \<Rightarrow>
               if composable p then
                 process_pages config string_width current_number (page_index + 1) ps
                   (writer @ [\<lparr>source = p, label = (num1, num2), stamp = overlay_page\<rparr>])
               else Inl (PageProcessingFailure page_index)))"

text \<open>
  \<open>process_pdf\<close> returns the files of the output folder and either the exception or
  the next start number. The output is written after the last page; the final log
  line formats the range with \<open>config['DIGITS']\<close>.
\<close>

definition process_pdf ::
  "document \<Rightarrow> string \<Rightarrow> int \<Rightarrow> config \<Rightarrow> (string \<Rightarrow> real) \<Rightarrow> files
     \<Rightarrow> files \<times> (error + int)" where
  "process_pdf input_pdf output_pdf_path start_number config string_width fs =
     (if \<not> readable input_pdf then (fs, Inl ReadFailure)
      else
        (case process_pages config string_width start_number 1 (doc_pages input_pdf) [] of
           Inl e \<Rightarrow> (fs, Inl e)
         | Inr (writer, current_number) \<Rightarrow>
             if \<not> writable input_pdf then (fs, Inl WriteFailure)
             else
               (fs(output_pdf_path \<mapsto> writer),
                and_then (getitem config ''DIGITS'') (\<lambda>digits. Inr current_number))))"

text \<open>A document that can be opened, whose pages all merge, and whose output can be
  written.\<close>

definition processable :: "document \<Rightarrow> bool" where
  "processable d = (readable d \<and> writable d \<and> list_all composable (doc_pages d))"

section \<open>The batch loop of main\<close>

text \<open>
  The state of the loop: the running counter, the two tallies, the output folder, and
  one report line for each document handled (its name, the start number logged for it
  and how \<open>process_pdf\<close> ended). \<open>mode\<close> is \<open>''1''\<close> (every file starts from the same
  number) or \<open>''2''\<close> (continuous).
\<close>

record report_line =
  file_name :: string
  start :: int
  outcome :: "error + int"

record batch =
  next_number :: int
  success_count :: nat
  fail_count :: nat
  output_folder :: files
  report :: "report_line list"

definition output_name :: "string \<Rightarrow> string" where
  "output_name pdf_name = stem pdf_name @ ''_numbered.pdf''"

definition batch_step ::
  "string \<Rightarrow> int \<Rightarrow> config \<Rightarrow> (string \<Rightarrow> real) \<Rightarrow> batch \<Rightarrow> document \<Rightarrow> batch" where
  "batch_step mode base_start config string_width st pdf =
     (let start_number = (if mode = ''1'' then base_start else next_number st);
          output_pdf_path = output_name (doc_name pdf);
          res = process_pdf pdf output_pdf_path start_number config string_width
                  (output_folder st);
          line = \<lparr>file_name = doc_name pdf, start = start_number, outcome = snd res\<rparr>
      in case snd res of
           Inr n \<Rightarrow>
             st\<lparr>next_number := n, success_count := success_count st + 1,
                output_folder := fst res, report := report st @ [line]\<rparr>
         | Inl e \<Rightarrow>
             st\<lparr>fail_count := fail_count st + 1,
                output_folder := fst res, report := report st @ [line]\<rparr>)"

definition initial_batch :: "int \<Rightarrow> files \<Rightarrow> batch" where
  "initial_batch base_start fs =
     \<lparr>next_number = base_start, success_count = 0, fail_count = 0,
      output_folder = fs, report = []\<rparr>"

definition run_batch ::
  "string \<Rightarrow> int \<Rightarrow> config \<Rightarrow> (string \<Rightarrow> real) \<Rightarrow> files \<Rightarrow> document list \<Rightarrow> batch" where
  "run_batch mode base_start config string_width fs pdf_list =
     foldl (batch_step mode base_start config string_width) (initial_batch base_start fs) pdf_list"

text \<open>The next start numbers returned by the documents of a report that succeeded, in
  order.\<close>

definition next_starts :: "report_line list \<Rightarrow> int list" where
  "next_starts lines =
     concat (map (\<lambda>line. case outcome line of Inl e \<Rightarrow> [] | Inr n \<Rightarrow> [n]) lines)"

section \<open>Facts about the string primitives\<close>

lemma str_nat_nonempty: "str_nat n \<noteq> []"
  by (subst str_nat.simps) simp

lemma of_char_digit_char: "d < 10 \<Longrightarrow> of_char (digit_char d) = (48 + d :: nat)"
  by (simp add: digit_char_def)

lemma digit_char_simps:
  "digit_char 0 = CHR ''0''" "digit_char (Suc 0) = CHR ''1''" "digit_char 2 = CHR ''2''"
  "digit_char 3 = CHR ''3''" "digit_char 4 = CHR ''4''" "digit_char 5 = CHR ''5''"
  "digit_char 6 = CHR ''6''" "digit_char 7 = CHR ''7''" "digit_char 8 = CHR ''8''"
  "digit_char 9 = CHR ''9''"
  by (simp_all add: digit_char_def char_of_def bit_Suc_0_iff)

lemmas str_int_eval = str_int_def str_nat.simps digit_char_simps

lemma is_digit_iff: "is_digit c \<longleftrightarrow> 48 \<le> (of_char c :: nat) \<and> (of_char c :: nat) \<le> 57"
  by (simp add: is_digit_def less_eq_char_def)

lemma is_digit_digit_char: "d < 10 \<Longrightarrow> is_digit (digit_char d)"
  by (simp add: is_digit_iff of_char_digit_char)

lemma is_digit_plain:
  "is_digit c \<Longrightarrow> c \<noteq> CHR ''+'' \<and> c \<noteq> CHR ''-'' \<and> c \<noteq> CHR ''_'' \<and> \<not> is_space c"
  by (auto simp add: is_digit_iff is_space_def)

lemma str_nat_digits: "list_all is_digit (str_nat n)"
proof (induction n rule: str_nat.induct)
  case (1 n)
  show ?case
  proof (cases "n < 10")
    case True
    then show ?thesis by (subst str_nat.simps) (simp add: is_digit_digit_char)
  next
    case False
    with 1 show ?thesis by (subst str_nat.simps) (simp add: is_digit_digit_char)
  qed
qed

lemma hd_str_nat_digit: "is_digit (hd (str_nat n))"
  using str_nat_digits [of n] str_nat_nonempty [of n] by (cases "str_nat n") simp_all

lemma int_of_digits_snoc: "int_of_digits (s @ [c]) = 10 * int_of_digits s + digit_val c"
  by (simp add: int_of_digits_def)

lemma digit_val_digit_char: "d < 10 \<Longrightarrow> digit_val (digit_char d) = int d"
  by (simp add: digit_val_def of_char_digit_char)

text \<open>\<open>str_nat\<close> writes the decimal representation: reading it back gives the number.\<close>

lemma int_of_digits_str_nat: "int_of_digits (str_nat n) = int n"
proof (induction n rule: str_nat.induct)
  case (1 n)
  show ?case
  proof (cases "n < 10")
    case True
    then show ?thesis
      by (subst str_nat.simps) (simp add: int_of_digits_def digit_val_digit_char)
  next
    case False
    with 1 have "int_of_digits (str_nat (n div 10)) = int (n div 10)" by simp
    moreover have "10 * int (n div 10) + int (n mod 10) = int n"
      by presburger
    ultimately show ?thesis using False
      by (subst str_nat.simps) (simp add: int_of_digits_snoc digit_val_digit_char)
  qed
qed

lemma valid_body_digits: "s \<noteq> [] \<Longrightarrow> list_all is_digit s \<Longrightarrow> valid_body s"
  by (induction s rule: valid_body.induct) (auto dest: is_digit_plain)

lemma filter_digits: "list_all is_digit s \<Longrightarrow> filter (\<lambda>c. c \<noteq> CHR ''_'') s = s"
  by (induction s) (auto dest: is_digit_plain)

lemma dropWhile_space_digits: "list_all is_digit s \<Longrightarrow> dropWhile is_space s = s"
  by (cases s) (auto dest: is_digit_plain)

lemma strip_digits: "list_all is_digit s \<Longrightarrow> strip s = s"
  by (simp add: strip_def dropWhile_space_digits list_all_iff)

lemma py_int_digits: "s \<noteq> [] \<Longrightarrow> list_all is_digit s \<Longrightarrow> py_int s = Some (int_of_digits s)"
  by (cases s) (auto simp add: py_int_def strip_digits body_value_def filter_digits
      valid_body_digits dest: is_digit_plain simp del: valid_body.simps)

lemma is_digit_zero: "is_digit (CHR ''0'')"
  by (simp add: is_digit_iff)

lemma int_of_digits_zeros: "int_of_digits (replicate k (CHR ''0'') @ s) = int_of_digits s"
  by (induction k) (simp_all add: int_of_digits_def digit_val_def)

section \<open>Label formatting: properties\<close>

lemma format_number_nonneg:
  "0 \<le> n \<Longrightarrow>
   format_number n d = replicate (nat (d - int (length (str_int n)))) (CHR ''0'') @ str_int n"
  using hd_str_nat_digit [of "nat n"] str_nat_nonempty [of "nat n"]
    is_digit_plain [of "hd (str_nat (nat n))"]
  by (cases "str_nat (nat n)") (auto simp add: format_number_def zfill_def str_int_def Let_def)

lemma format_number_long: "d \<le> int (length (str_int n)) \<Longrightarrow> format_number n d = str_int n"
  by (simp add: format_number_def zfill_def)

lemma format_number_length:
  "int (length (format_number n d)) = max d (int (length (str_int n)))"
  by (auto simp add: format_number_def zfill_def Let_def split: list.splits)

lemma py_int_format_number: "0 \<le> n \<Longrightarrow> py_int (format_number n d) = Some n"
proof -
  assume n: "0 \<le> n"
  let ?s = "replicate (nat (d - int (length (str_int n)))) (CHR ''0'') @ str_int n"
  have s: "str_int n = str_nat (nat n)" using n by (simp add: str_int_def)
  have "list_all is_digit ?s" "?s \<noteq> []"
    using str_nat_digits [of "nat n"]
    by (auto simp add: s str_nat_nonempty list_all_iff is_digit_zero)
  then have "py_int ?s = Some (int_of_digits ?s)" by (simp add: py_int_digits)
  also have "int_of_digits ?s = n"
    using n by (simp add: int_of_digits_zeros s int_of_digits_str_nat)
  finally show ?thesis using n by (simp add: format_number_nonneg)
qed

text \<open>
  Claim C6. \<open>format_number\<close> pads the decimal representation of a number with zeros on
  the left up to the width \<open>DIGITS\<close> and never truncates: \<open>format_number 7 4\<close> is
  \<open>0007\<close> and \<open>format_number 12345 4\<close> is \<open>12345\<close>. For every number \<open>n \<ge> 0\<close> and
  every width \<open>d\<close> the result is \<open>str(n)\<close> preceded by \<open>d - len(str(n))\<close> zeros (none
  when that is not positive) and reads back as \<open>n\<close>; for every integer, a representation
  at least \<open>d\<close> long is returned unchanged, and the length of the result is the larger
  of \<open>d\<close> and the length of the representation.
\<close>

theorem format_number_zero_pads:
  "format_number 7 4 = ''0007'' \<and> format_number 12345 4 = ''12345'' \<and>
   (0 \<le> n \<longrightarrow>
      format_number n d = replicate (nat (d - int (length (str_int n)))) (CHR ''0'') @ str_int n
      \<and> py_int (format_number n d) = Some n) \<and>
   (d \<le> int (length (str_int n)) \<longrightarrow> format_number n d = str_int n) \<and>
   int (length (format_number n d)) = max d (int (length (str_int n)))"
proof -
  have "str_int 7 = ''7''" by (simp add: str_int_eval)
  then have "format_number 7 4 = ''0007''"
    by (simp add: format_number_def zfill_def numeral_eq_Suc)
  moreover have "format_number 12345 4 = ''12345''"
    by (simp add: format_number_def zfill_def str_int_eval)
  ultimately show ?thesis
    using format_number_nonneg [of n d] py_int_format_number [of n d]
      format_number_long [of d n] format_number_length [of n d]
    by blast
qed

theorem format_number_zero_pads_witness:
  "(0::int) \<le> 42 \<and> format_number 42 5 = ''00042'' \<and> py_int ''00042'' = Some 42 \<and>
   (3::int) \<le> int (length (str_int 123456)) \<and> format_number 123456 3 = ''123456''"
proof -
  have a: "str_int 42 = ''42''" "str_int 123456 = ''123456''"
    by (simp_all add: str_int_eval)
  have b: "format_number 42 5 = ''00042''"
    using format_number_zero_pads [of 42 5] by (simp add: a numeral_eq_Suc)
  have pos: "(0::int) \<le> 42" by simp
  have "py_int (format_number 42 5) = Some 42"
    using format_number_zero_pads [of 42 5] pos by blast
  then have c: "py_int ''00042'' = Some 42" by (simp only: b)
  have d: "format_number 123456 3 = ''123456''"
    using format_number_zero_pads [of 123456 3] by (simp add: a)
  show ?thesis using b c d by (simp add: a)
qed

section \<open>File ordering: properties\<close>

lemma split_on_nonempty: "split_on sep s \<noteq> []"
  by (induction s) (auto split: list.splits)

lemma hd_split_on: "hd (split_on sep s) = takeWhile (\<lambda>c. c \<noteq> sep) s"
  by (induction s) (auto split: list.splits simp add: split_on_nonempty)

lemma takeWhile_twice:
  "takeWhile P (takeWhile Q s) = takeWhile (\<lambda>c. Q c \<and> P c) s"
  by (induction s) auto

lemma key_prefix:
  "extract_prefix_sort_key f =
     (let p = takeWhile (\<lambda>c. c \<noteq> CHR ''_'' \<and> c \<noteq> CHR ''-'') (stem f)
      in if isdigit p then (0, KInt (int_of_digits p))
         else if p \<noteq> [] \<and> is_alpha (hd p) then (1, KStr (lower p))
         else (2, KStr (lower p)))"
  by (auto simp add: extract_prefix_sort_key_def hd_split_on takeWhile_twice Let_def lower_def)

text \<open>Keys of one rank carry values of one type, so the sort never compares an
  \<open>int\<close> with a \<open>str\<close>.\<close>

lemma rank_decides_value_type:
  "fst (extract_prefix_sort_key f) = 0 \<longleftrightarrow> (\<exists>n. snd (extract_prefix_sort_key f) = KInt n)"
  by (simp add: key_prefix Let_def)

lemma stable_sort_unique:
  assumes "mset ys = mset xs"
    and "\<And>k. filter (\<lambda>x. extract_prefix_sort_key x = k) ys =
               filter (\<lambda>x. extract_prefix_sort_key x = k) xs"
    and "sorted (map extract_prefix_sort_key ys)"
  shows "sort_key extract_prefix_sort_key xs = ys"
proof (rule properties_for_sort_key [OF assms(1) _ assms(3)])
  fix k
  have "(\<lambda>x. extract_prefix_sort_key k = extract_prefix_sort_key x) =
      (\<lambda>x. extract_prefix_sort_key x = extract_prefix_sort_key k)"
    by auto
  then show "filter (\<lambda>x. extract_prefix_sort_key k = extract_prefix_sort_key x) ys =
      filter (\<lambda>x. extract_prefix_sort_key k = extract_prefix_sort_key x) xs"
    using assms(2) [of "extract_prefix_sort_key k"] by simp
qed



lemmas eval_chars = is_digit_def is_alpha_def is_space_def lower_char_def upper_char_def
  less_eq_char_def less_char_def digit_val_def

lemmas eval_key = extract_prefix_sort_key_def stem_def rfind_def isdigit_def lower_def
  int_of_digits_def Let_def eval_chars









lemma key_007_a: "extract_prefix_sort_key ''007_a.pdf'' = (0, KInt 7)"
  by (simp add: eval_key)
lemma key_7_b: "extract_prefix_sort_key ''7_b.pdf'' = (0, KInt 7)"
  by (simp add: eval_key)

text \<open>
  Claim C10. The sort key is not injective on file names: two names whose prefixes are
  both all digits and have the same integer value get the same key \<open>(0, n)\<close>, as
  \<open>007_a.pdf\<close> and \<open>7_b.pdf\<close> do. The sort is stable, so the files of one key keep the
  order in which they were found: the two names sort to either order, depending on the
  order of discovery.
\<close>

theorem sort_key_not_injective:
  "(let p1 = takeWhile (\<lambda>c. c \<noteq> CHR ''_'' \<and> c \<noteq> CHR ''-'') (stem f1);
        p2 = takeWhile (\<lambda>c. c \<noteq> CHR ''_'' \<and> c \<noteq> CHR ''-'') (stem f2)
    in isdigit p1 \<and> isdigit p2 \<and> int_of_digits p1 = int_of_digits p2 \<longrightarrow>
         extract_prefix_sort_key f1 = (0, KInt (int_of_digits p1)) \<and>
         extract_prefix_sort_key f2 = extract_prefix_sort_key f1) \<and>
   extract_prefix_sort_key ''007_a.pdf'' = (0, KInt 7) \<and>
   extract_prefix_sort_key ''7_b.pdf'' = (0, KInt 7) \<and>
   \<not> inj extract_prefix_sort_key \<and>
   filter (\<lambda>f. extract_prefix_sort_key f = k) (sort_key extract_prefix_sort_key fs) =
     filter (\<lambda>f. extract_prefix_sort_key f = k) fs \<and>
   sort_key extract_prefix_sort_key [''007_a.pdf'', ''7_b.pdf''] = [''007_a.pdf'', ''7_b.pdf''] \<and>
   sort_key extract_prefix_sort_key [''7_b.pdf'', ''007_a.pdf''] = [''7_b.pdf'', ''007_a.pdf'']"
proof -
  have a: "\<not> inj extract_prefix_sort_key"
  proof
    assume "inj extract_prefix_sort_key"
    then have "''007_a.pdf'' = ''7_b.pdf''"
      by (rule injD) (simp add: key_007_a key_7_b)
    then show False by simp
  qed
  have b: "filter (\<lambda>f. extract_prefix_sort_key f = k) (sort_key extract_prefix_sort_key fs) =
     filter (\<lambda>f. extract_prefix_sort_key f = k) fs"
    by (rule sort_key_stable)
  have c: "sort_key extract_prefix_sort_key [''007_a.pdf'', ''7_b.pdf''] = [''007_a.pdf'', ''7_b.pdf'']"
    "sort_key extract_prefix_sort_key [''7_b.pdf'', ''007_a.pdf''] = [''7_b.pdf'', ''007_a.pdf'']"
    by (simp_all add: key_007_a key_7_b)
  show ?thesis
    unfolding Let_def using a b c key_007_a key_7_b key_prefix [of f1] key_prefix [of f2]
    by (simp add: Let_def)
qed

theorem sort_key_not_injective_witness:
  "extract_prefix_sort_key ''0042-x.pdf'' = (0, KInt 42) \<and>
   extract_prefix_sort_key ''42.pdf'' = extract_prefix_sort_key ''0042-x.pdf''"
proof -
  have p: "takeWhile (\<lambda>c. c \<noteq> CHR ''_'' \<and> c \<noteq> CHR ''-'') (stem ''0042-x.pdf'') = ''0042''"
    "takeWhile (\<lambda>c. c \<noteq> CHR ''_'' \<and> c \<noteq> CHR ''-'') (stem ''42.pdf'') = ''42''"
    by (simp_all add: stem_def rfind_def)
  have v: "isdigit ''0042''" "isdigit ''42''" "int_of_digits ''0042'' = 42"
    "int_of_digits ''42'' = 42"
    by (simp_all add: isdigit_def int_of_digits_def eval_chars)
  show ?thesis
    using sort_key_not_injective [of "''0042-x.pdf''" "''42.pdf''"]
    by (simp add: p v Let_def)
qed

section \<open>Configuration: properties\<close>

lemma parse_line_blank: "strip l = [] \<Longrightarrow> parse_line l = None"
  by (simp add: parse_line_def)

lemma parse_line_comment: "startswith (strip l) ''#'' \<Longrightarrow> parse_line l = None"
  by (simp add: parse_line_def)

lemma required_keys: "set required = set int_keys \<union> set bool_keys"
  by (auto simp add: required_def int_keys_def bool_keys_def)

lemma config_line_ignored:
  "parse_line l = None \<or> (\<exists>k v. parse_line l = Some (k, v) \<and> k \<notin> set required) \<Longrightarrow>
   config_line c l = c"
  by (auto simp add: config_line_def required_keys)

lemma config_line_int:
  "parse_line l = Some (k, v) \<Longrightarrow> k \<in> set int_keys \<Longrightarrow>
   config_line c l = c(k \<mapsto> (case py_int v of Some n \<Rightarrow> n | None \<Rightarrow> 0))"
  by (simp add: config_line_def)

lemma bool_key_not_int: "k \<in> set bool_keys \<Longrightarrow> k \<notin> set int_keys"
  by (auto simp add: int_keys_def bool_keys_def)

lemma config_line_bool:
  "parse_line l = Some (k, v) \<Longrightarrow> k \<in> set bool_keys \<Longrightarrow>
   config_line c l = c(k \<mapsto> (if v = ''1'' then 1 else 0))"
  by (simp add: config_line_def bool_key_not_int)

lemma config_line_other:
  "(\<forall>v. parse_line l \<noteq> Some (k, v)) \<Longrightarrow> config_line c l k = c k"
  by (auto simp add: config_line_def split: option.splits)

lemma fill_keys_apply:
  "foldl (\<lambda>c key. if c key = None then c(key \<mapsto> 0) else c) c ks k =
     (if k \<in> set ks \<and> c k = None then Some (0::int) else c k)"
  by (induction ks arbitrary: c) auto

lemma fill_required_apply:
  "fill_required c k = (if k \<in> set required \<and> c k = None then Some 0 else c k)"
  unfolding fill_required_def by (rule fill_keys_apply)

lemma fill_required_upd:
  "k \<in> set required \<Longrightarrow> fill_required (c(k \<mapsto> x)) = (fill_required c)(k \<mapsto> x)"
  by (rule ext) (simp add: fill_required_apply)

lemma dom_fill: "dom (fill_required c) = dom c \<union> set required"
  by (auto simp add: fill_required_apply dom_def split: if_splits)

lemma config_line_cases:
  "config_line c l = c \<or> (\<exists>k x. k \<in> set required \<and> config_line c l = c(k \<mapsto> x))"
proof (cases "parse_line l")
  case None
  then show ?thesis by (simp add: config_line_def)
next
  case (Some kv)
  obtain k v where kv: "kv = (k, v)" by (cases kv)
  show ?thesis
  proof (cases "k \<in> set required")
    case True
    then have "\<exists>x. config_line c l = c(k \<mapsto> x)"
      using Some kv by (auto simp add: config_line_def required_keys)
    with True show ?thesis by blast
  next
    case False
    then show ?thesis using Some kv by (simp add: config_line_def required_keys)
  qed
qed

lemma dom_config_line: "dom c \<subseteq> set required \<Longrightarrow> dom (config_line c l) \<subseteq> set required"
proof -
  assume d: "dom c \<subseteq> set required"
  from config_line_cases [of c l] show ?thesis
  proof
    assume "config_line c l = c"
    with d show ?thesis by simp
  next
    assume "\<exists>k x. k \<in> set required \<and> config_line c l = c(k \<mapsto> x)"
    then obtain k x where "k \<in> set required" "config_line c l = c(k \<mapsto> x)" by blast
    with d show ?thesis by simp
  qed
qed

lemma dom_foldl_config_line:
  "dom c \<subseteq> set required \<Longrightarrow> dom (foldl config_line c ls) \<subseteq> set required"
  by (induction ls arbitrary: c) (simp_all add: dom_config_line)

lemma load_config_Some:
  "load_config (Some ls) = Inr (fill_required (foldl config_line Map.empty ls))"
  by (simp add: load_config_def)

lemma dom_load_config: "load_config (Some ls) = Inr c \<Longrightarrow> dom c = set required"
proof -
  assume "load_config (Some ls) = Inr c"
  then have c: "c = fill_required (foldl config_line Map.empty ls)"
    by (simp add: load_config_Some)
  have "dom (foldl config_line Map.empty ls) \<subseteq> set required"
    by (rule dom_foldl_config_line) simp
  then show ?thesis unfolding c dom_fill by blast
qed

lemma foldl_absent:
  "(\<forall>l \<in> set ls. \<forall>v. parse_line l \<noteq> Some (k, v)) \<Longrightarrow> foldl config_line c ls k = c k"
  by (induction ls arbitrary: c) (simp_all add: config_line_other)

lemma load_config_empty:
  "load_config (Some []) = Inr (\<lambda>k. if k \<in> set required then Some 0 else None)"
  by (auto simp add: load_config_Some fill_required_apply)


lemma load_config_drop_line:
  "config_line (foldl config_line Map.empty ls) l = foldl config_line Map.empty ls \<Longrightarrow>
   load_config (Some (ls @ l # ls')) = load_config (Some (ls @ ls'))"
  by (simp add: load_config_Some)

text \<open>
  Claim C5. Loading a configuration file that exists always gives a dict with exactly
  the eight recognized keys. A recognized key that no line of the file assigns is 0
  (false for the two flags), so the empty file gives 0 for all eight. A line
  \<open>key=value\<close> for one of \<open>X1, Y1, X2, Y2, DIGITS, PAD\<close> stores \<open>int(value)\<close>, or 0 when
  that conversion fails; a line for \<open>DRAW_BOX\<close> or \<open>DRAW_CIRCLE\<close> stores 1 when the value
  is the string \<open>1\<close> and 0 otherwise. Blank lines and lines starting with \<open>#\<close> are not
  read as assignments, and a line that is not an assignment, or that assigns an unknown
  key, changes nothing wherever it stands in the file.
\<close>

theorem load_config_defaults:
  "load_config (Some []) = Inr (\<lambda>k. if k \<in> set required then Some 0 else None) \<and>
   (\<exists>c. load_config (Some ls) = Inr c \<and> dom c = set required \<and>
      (\<forall>k \<in> set required. (\<forall>l \<in> set ls. \<forall>v. parse_line l \<noteq> Some (k, v)) \<longrightarrow> c k = Some 0) \<and>
      (\<forall>k v. parse_line l = Some (k, v) \<and> k \<in> set int_keys \<longrightarrow>
         load_config (Some (ls @ [l])) =
           Inr (c(k \<mapsto> (case py_int v of Some n \<Rightarrow> n | None \<Rightarrow> 0)))) \<and>
      (\<forall>k v. parse_line l = Some (k, v) \<and> k \<in> set bool_keys \<longrightarrow>
         load_config (Some (ls @ [l])) = Inr (c(k \<mapsto> (if v = ''1'' then 1 else 0))))) \<and>
   (strip l = [] \<or> startswith (strip l) ''#'' \<longrightarrow> parse_line l = None) \<and>
   (parse_line l = None \<or> (\<exists>k v. parse_line l = Some (k, v) \<and> k \<notin> set required) \<longrightarrow>
      load_config (Some (ls @ l # ls')) = load_config (Some (ls @ ls')))"
proof -
  let ?raw = "foldl config_line Map.empty ls"
  let ?cfg = "fill_required ?raw"
  have c: "load_config (Some ls) = Inr ?cfg" by (rule load_config_Some)
  have d: "dom ?cfg = set required" using c by (rule dom_load_config)
  have absent: "\<forall>k \<in> set required.
      (\<forall>l \<in> set ls. \<forall>v. parse_line l \<noteq> Some (k, v)) \<longrightarrow> ?cfg k = Some 0"
    by (simp add: fill_required_apply foldl_absent)
  have ints: "\<forall>k v. parse_line l = Some (k, v) \<and> k \<in> set int_keys \<longrightarrow>
      load_config (Some (ls @ [l])) =
        Inr (?cfg(k \<mapsto> (case py_int v of Some n \<Rightarrow> n | None \<Rightarrow> 0)))"
    by (simp add: load_config_Some config_line_int fill_required_upd required_keys)
  have bools: "\<forall>k v. parse_line l = Some (k, v) \<and> k \<in> set bool_keys \<longrightarrow>
      load_config (Some (ls @ [l])) = Inr (?cfg(k \<mapsto> (if v = ''1'' then 1 else 0)))"
    by (simp add: load_config_Some config_line_bool fill_required_upd required_keys)
  have skip: "strip l = [] \<or> startswith (strip l) ''#'' \<longrightarrow> parse_line l = None"
    using parse_line_blank parse_line_comment by blast
  have ign: "parse_line l = None \<or> (\<exists>k v. parse_line l = Some (k, v) \<and> k \<notin> set required) \<longrightarrow>
      load_config (Some (ls @ l # ls')) = load_config (Some (ls @ ls'))"
    using config_line_ignored [where l = l and c = ?raw] load_config_drop_line [of ls l ls'] by blast
  from c d absent ints bools have ex: "\<exists>c. load_config (Some ls) = Inr c \<and> dom c = set required \<and>
      (\<forall>k \<in> set required. (\<forall>l \<in> set ls. \<forall>v. parse_line l \<noteq> Some (k, v)) \<longrightarrow> c k = Some 0) \<and>
      (\<forall>k v. parse_line l = Some (k, v) \<and> k \<in> set int_keys \<longrightarrow>
         load_config (Some (ls @ [l])) =
           Inr (c(k \<mapsto> (case py_int v of Some n \<Rightarrow> n | None \<Rightarrow> 0)))) \<and>
      (\<forall>k v. parse_line l = Some (k, v) \<and> k \<in> set bool_keys \<longrightarrow>
         load_config (Some (ls @ [l])) = Inr (c(k \<mapsto> (if v = ''1'' then 1 else 0))))"
    by blast
  show ?thesis using load_config_empty ex skip ign by blast
qed


lemmas eval_parse = parse_line_def strip_def startswith_def split_once_def is_space_def Let_def

theorem load_config_defaults_witness:
  "(\<exists>c. load_config (Some [''X1 = 5'']) = Inr c \<and> c ''DIGITS'' = Some 0 \<and>
        load_config (Some [''X1 = 5'', ''PAD=x'']) = Inr (c(''PAD'' \<mapsto> 0))) \<and>
   (\<exists>c. load_config (Some [''X1 = 5'']) = Inr c \<and>
        load_config (Some [''X1 = 5'', ''DRAW_BOX= 1'']) = Inr (c(''DRAW_BOX'' \<mapsto> 1))) \<and>
   parse_line ''# note'' = None \<and>
   load_config (Some [''X1 = 5'', ''FOO=3'', ''Y1=2'']) = load_config (Some [''X1 = 5'', ''Y1=2''])"
proof -
  have p1: "parse_line ''X1 = 5'' = Some (''X1'', ''5'')"
    and p2: "parse_line ''PAD=x'' = Some (''PAD'', ''x'')"
    and p3: "parse_line ''DRAW_BOX= 1'' = Some (''DRAW_BOX'', ''1'')"
    and p4: "parse_line ''FOO=3'' = Some (''FOO'', ''3'')"
    by (simp_all add: eval_parse)
  have x: "py_int ''x'' = None"
    by (simp add: py_int_def strip_def is_space_def is_digit_def less_eq_char_def)
  have keys: "''DIGITS'' \<in> set required" "''PAD'' \<in> set int_keys" "''DRAW_BOX'' \<in> set bool_keys"
    "''FOO'' \<notin> set required"
    by (simp_all add: required_def int_keys_def bool_keys_def)
  have a: "\<exists>c. load_config (Some [''X1 = 5'']) = Inr c \<and> c ''DIGITS'' = Some 0 \<and>
        load_config (Some [''X1 = 5'', ''PAD=x'']) = Inr (c(''PAD'' \<mapsto> 0))"
  proof -
    from load_config_defaults [of "[''X1 = 5'']" "''PAD=x''" "[]"]
    obtain c where c: "load_config (Some [''X1 = 5'']) = Inr c"
      and absent: "\<forall>k \<in> set required.
        (\<forall>l \<in> set [''X1 = 5'']. \<forall>v. parse_line l \<noteq> Some (k, v)) \<longrightarrow> c k = Some 0"
      and ints: "\<forall>k v. parse_line ''PAD=x'' = Some (k, v) \<and> k \<in> set int_keys \<longrightarrow>
        load_config (Some ([''X1 = 5''] @ [''PAD=x''])) =
          Inr (c(k \<mapsto> (case py_int v of Some n \<Rightarrow> n | None \<Rightarrow> 0)))"
      by blast
    from absent keys(1) have "c ''DIGITS'' = Some 0" by (simp add: p1)
    moreover from ints p2 keys(2)
    have "load_config (Some [''X1 = 5'', ''PAD=x'']) = Inr (c(''PAD'' \<mapsto> 0))"
      by (simp add: x)
    ultimately show ?thesis using c by blast
  qed
  have b: "\<exists>c. load_config (Some [''X1 = 5'']) = Inr c \<and>
        load_config (Some [''X1 = 5'', ''DRAW_BOX= 1'']) = Inr (c(''DRAW_BOX'' \<mapsto> 1))"
    using load_config_defaults [of "[''X1 = 5'']" "''DRAW_BOX= 1''" "[]"] p3 keys by auto
  have s: "startswith (strip ''# note'') ''#''"
    by (simp add: strip_def startswith_def is_space_def)
  have c: "parse_line ''# note'' = None"
    using load_config_defaults [of "[]" "''# note''" "[]"] s by blast
  have d: "load_config (Some [''X1 = 5'', ''FOO=3'', ''Y1=2'']) = load_config (Some [''X1 = 5'', ''Y1=2''])"
    using load_config_defaults [of "[''X1 = 5'']" "''FOO=3''" "[''Y1=2'']"] p4 keys by simp
  show ?thesis using a b c d by blast
qed

section \<open>File selection: properties\<close>












section \<open>Overlay rendering: properties\<close>

lemma getitem_Some: "config key = Some v \<Longrightarrow> getitem config key = Inr v"
  by (simp add: getitem_def)

lemma and_then_Inr: "and_then (Inr v) f = f v"
  by (simp add: and_then_def)

lemma draw_label_ok:
  assumes "config xkey = Some x" "config ykey = Some y" "config ''DIGITS'' = Some digits"
    "config ''PAD'' = Some pad" "config ''DRAW_BOX'' = Some box"
    "config ''DRAW_CIRCLE'' = Some circle"
  shows "draw_label config string_width xkey ykey number =
     Inr ((if box \<noteq> 0 then
             [Rect (of_int x - of_int pad) (of_int y - of_int pad)
                (string_width (format_number number digits) + of_int pad * 2)
                (12 + of_int pad * 2)]
           else if circle \<noteq> 0 then
             [Circle (of_int x + string_width (format_number number digits) / 2)
                (of_int y + 12 / 2)
                (max (string_width (format_number number digits)) 12 / 2 + of_int pad)]
           else [])
          @ [DrawString (of_int x) (of_int y) (format_number number digits)])"
  using assms by (simp add: draw_label_def getitem_Some and_then_Inr Let_def)

text \<open>
  Claim C8. For every configuration holding the eight keys, the overlay is produced and
  each of its two labels gets at most one decoration, drawn before the label's text:
  when \<open>DRAW_BOX\<close> is set, a rectangle, and no circle even if \<open>DRAW_CIRCLE\<close> is set too;
  when only \<open>DRAW_CIRCLE\<close> is set, a circle; when neither is set, nothing but the two
  texts. The overlay never holds a circle while \<open>DRAW_BOX\<close> is set, and it holds two
  decorations (one for each label) when a flag is set and none otherwise.
\<close>

theorem one_decoration_per_label:
  assumes "config ''X1'' = Some x1" "config ''Y1'' = Some y1"
    "config ''X2'' = Some x2" "config ''Y2'' = Some y2"
    "config ''DIGITS'' = Some digits" "config ''PAD'' = Some pad"
    "config ''DRAW_BOX'' = Some box" "config ''DRAW_CIRCLE'' = Some circle"
  shows "\<exists>ov. create_number_overlay number1 number2 config string_width width height
           = Inr ov \<and>
     pagesize ov = (width, height) \<and>
     (let t1 = format_number number1 digits; w1 = string_width t1;
          t2 = format_number number2 digits; w2 = string_width t2
      in (box \<noteq> 0 \<longrightarrow>
            ops ov =
              [Rect (of_int x1 - of_int pad) (of_int y1 - of_int pad)
                 (w1 + of_int pad * 2) (12 + of_int pad * 2),
               DrawString (of_int x1) (of_int y1) t1,
               Rect (of_int x2 - of_int pad) (of_int y2 - of_int pad)
                 (w2 + of_int pad * 2) (12 + of_int pad * 2),
               DrawString (of_int x2) (of_int y2) t2]) \<and>
         (box = 0 \<and> circle \<noteq> 0 \<longrightarrow>
            ops ov =
              [Circle (of_int x1 + w1 / 2) (of_int y1 + 12 / 2) (max w1 12 / 2 + of_int pad),
               DrawString (of_int x1) (of_int y1) t1,
               Circle (of_int x2 + w2 / 2) (of_int y2 + 12 / 2) (max w2 12 / 2 + of_int pad),
               DrawString (of_int x2) (of_int y2) t2]) \<and>
         (box = 0 \<and> circle = 0 \<longrightarrow>
            ops ov =
              [DrawString (of_int x1) (of_int y1) t1, DrawString (of_int x2) (of_int y2) t2])) \<and>
     (\<forall>op \<in> set (ops ov). is_Circle op \<longrightarrow> box = 0) \<and>
     length (filter (\<lambda>op. is_Rect op \<or> is_Circle op) (ops ov)) =
       (if box \<noteq> 0 \<or> circle \<noteq> 0 then 2 else 0)"
  using assms
  by (simp add: create_number_overlay_def draw_label_ok [where box = box and circle = circle]
      and_then_Inr Let_def)


theorem one_decoration_per_label_witness:
  "create_number_overlay 1 2
     [''X1'' \<mapsto> 10, ''Y1'' \<mapsto> 20, ''X2'' \<mapsto> 30, ''Y2'' \<mapsto> 40, ''DIGITS'' \<mapsto> 3,
      ''PAD'' \<mapsto> 2, ''DRAW_BOX'' \<mapsto> 1, ''DRAW_CIRCLE'' \<mapsto> 1]
     (\<lambda>s. 6 * real (length s)) 595 842 =
   Inr \<lparr>pagesize = (595, 842),
        ops = [Rect 8 18 22 16, DrawString 10 20 ''001'',
               Rect 28 38 22 16, DrawString 30 40 ''002'']\<rparr>"
proof -
  let ?config = "[''X1'' \<mapsto> 10, ''Y1'' \<mapsto> 20, ''X2'' \<mapsto> 30, ''Y2'' \<mapsto> 40, ''DIGITS'' \<mapsto> 3,
      ''PAD'' \<mapsto> 2, ''DRAW_BOX'' \<mapsto> 1, ''DRAW_CIRCLE'' \<mapsto> (1::int)]"
  have s: "str_int 1 = ''1''" "str_int 2 = ''2''" by (simp_all add: str_int_eval)
  have f: "format_number 1 3 = ''001''" "format_number 2 3 = ''002''"
    by (simp_all add: format_number_def zfill_def s numeral_eq_Suc)
  have "\<exists>ov. create_number_overlay 1 2 ?config (\<lambda>s. 6 * real (length s)) 595 842 = Inr ov \<and>
      pagesize ov = (595, 842) \<and>
      ops ov = [Rect 8 18 22 16, DrawString 10 20 ''001'',
                Rect 28 38 22 16, DrawString 30 40 ''002'']"
    using one_decoration_per_label [of ?config 10 20 30 40 3 2 1 1 1 2
        "\<lambda>s. 6 * real (length s)" 595 842]
    by (simp add: f Let_def) blast
  then obtain ov where
    "create_number_overlay 1 2 ?config (\<lambda>s. 6 * real (length s)) 595 842 = Inr ov"
    "pagesize ov = (595, 842)"
    "ops ov = [Rect 8 18 22 16, DrawString 10 20 ''001'',
               Rect 28 38 22 16, DrawString 30 40 ''002'']"
    by blast
  then show ?thesis by (cases ov) simp
qed

section \<open>Processing one document: properties\<close>

lemma draw_label_complete:
  assumes "set required \<subseteq> dom config" "xkey \<in> set required" "ykey \<in> set required"
  shows "\<exists>l. draw_label config string_width xkey ykey number = Inr l"
proof -
  have present: "\<exists>v. config k = Some v" if "k \<in> set required" for k
    using assms(1) that by blast
  have "''DIGITS'' \<in> set required" "''PAD'' \<in> set required" "''DRAW_BOX'' \<in> set required"
    "''DRAW_CIRCLE'' \<in> set required"
    by (simp_all add: required_def)
  with assms(2,3) present obtain x y digits pad box circle where
    "config xkey = Some x" "config ykey = Some y" "config ''DIGITS'' = Some digits"
    "config ''PAD'' = Some pad" "config ''DRAW_BOX'' = Some box"
    "config ''DRAW_CIRCLE'' = Some circle"
    by metis
  then show ?thesis using draw_label_ok by blast
qed

lemma create_number_overlay_complete:
  assumes "set required \<subseteq> dom config"
  shows "\<exists>ov. create_number_overlay n1 n2 config string_width w h = Inr ov"
proof -
  have k: "''X1'' \<in> set required" "''Y1'' \<in> set required" "''X2'' \<in> set required"
    "''Y2'' \<in> set required"
    by (simp_all add: required_def)
  obtain l1 where l1: "draw_label config string_width ''X1'' ''Y1'' n1 = Inr l1"
    using draw_label_complete [OF assms k(1) k(2)] by blast
  obtain l2 where l2: "draw_label config string_width ''X2'' ''Y2'' n2 = Inr l2"
    using draw_label_complete [OF assms k(3) k(4)] by blast
  show ?thesis by (simp add: create_number_overlay_def l1 l2 and_then_Inr)
qed

lemma getitem_digits:
  "set required \<subseteq> dom config \<Longrightarrow> \<exists>digits. getitem config ''DIGITS'' = Inr digits"
proof -
  assume sub: "set required \<subseteq> dom config"
  have "''DIGITS'' \<in> set required" by (simp add: required_def)
  with sub have "''DIGITS'' \<in> dom config" by (rule subsetD)
  then obtain v where "config ''DIGITS'' = Some v" by blast
  then show ?thesis by (simp add: getitem_def)
qed

text \<open>One turn of the page loop on a page that merges.\<close>

lemma process_pages_step:
  assumes "set required \<subseteq> dom config" "composable p"
  shows "\<exists>ov. process_pages config string_width cur idx (p # ps) writer =
     process_pages config string_width (cur + 2) (idx + 1) ps
       (writer @ [\<lparr>source = p, label = (cur, cur + 1), stamp = ov\<rparr>])"
proof -
  obtain digits where d: "getitem config ''DIGITS'' = Inr digits"
    using getitem_digits [OF assms(1)] by blast
  obtain ov where ov: "create_number_overlay cur (cur + 1) config string_width
      (page_width p) (page_height p) = Inr ov"
    using create_number_overlay_complete [OF assms(1)] by blast
  have "process_pages config string_width cur idx (p # ps) writer =
     process_pages config string_width (cur + 2) (idx + 1) ps
       (writer @ [\<lparr>source = p, label = (cur, cur + 1), stamp = ov\<rparr>])"
    using assms(2) by (simp add: d ov and_then_Inr Let_def)
  then show ?thesis by (rule exI)
qed

lemma process_pages_ok:
  assumes "set required \<subseteq> dom config" "list_all composable ps"
  shows "\<exists>out. process_pages config string_width cur idx ps writer =
        Inr (writer @ out, cur + 2 * int (length ps)) \<and>
      map source out = ps \<and>
      (\<forall>i < length ps. label (out ! i) = (cur + 2 * int i, cur + 2 * int i + 1))"
  using assms(2)
proof (induction ps arbitrary: cur idx writer)
  case Nil
  then show ?case by simp
next
  case (Cons p ps)
  then have p: "composable p" and ps: "list_all composable ps" by simp_all
  obtain ov where step: "process_pages config string_width cur idx (p # ps) writer =
     process_pages config string_width (cur + 2) (idx + 1) ps
       (writer @ [\<lparr>source = p, label = (cur, cur + 1), stamp = ov\<rparr>])"
    using process_pages_step [OF assms(1) p] by blast
  define np where "np = \<lparr>source = p, label = (cur, cur + 1), stamp = ov\<rparr>"
  from Cons.IH [OF ps, of "cur + 2" "idx + 1" "writer @ [np]"]
  obtain out where out: "process_pages config string_width (cur + 2) (idx + 1) ps (writer @ [np]) =
        Inr ((writer @ [np]) @ out, cur + 2 + 2 * int (length ps))"
    "map source out = ps"
    "\<forall>i < length ps. label (out ! i) = (cur + 2 + 2 * int i, cur + 2 + 2 * int i + 1)"
    by blast
  have a: "process_pages config string_width cur idx (p # ps) writer =
      Inr (writer @ (np # out), cur + 2 * int (length (p # ps)))"
    unfolding step np_def [symmetric] out(1) by simp
  have b: "map source (np # out) = p # ps" by (simp add: out(2) np_def)
  have c: "\<forall>i < length (p # ps). label ((np # out) ! i) = (cur + 2 * int i, cur + 2 * int i + 1)"
  proof (intro allI impI)
    fix i assume i: "i < length (p # ps)"
    show "label ((np # out) ! i) = (cur + 2 * int i, cur + 2 * int i + 1)"
    proof (cases i)
      case 0
      then show ?thesis by (simp add: np_def)
    next
      case (Suc j)
      with i have "j < length ps" by simp
      with out(3) Suc show ?thesis by simp
    qed
  qed
  from a b c show ?case by (intro exI [of _ "np # out"] conjI)
qed

lemma process_pages_fail:
  assumes "\<not> list_all composable ps"
  shows "\<exists>e. process_pages config string_width cur idx ps writer = Inl e"
  using assms
proof (induction ps arbitrary: cur idx writer)
  case Nil
  then show ?case by simp
next
  case (Cons p ps)
  show ?case
  proof (cases "composable p")
    case True
    with Cons.prems have "\<not> list_all composable ps" by simp
    from Cons.IH [OF this] show ?thesis
      by (simp add: and_then_def Let_def split: sum.splits)
  next
    case False
    then show ?thesis by (simp add: and_then_def Let_def split: sum.splits)
  qed
qed


lemma process_pdf_ok:
  assumes "set required \<subseteq> dom config" "processable d"
  shows "\<exists>written. process_pdf d out start_number config string_width fs =
        (fs(out \<mapsto> written), Inr (start_number + 2 * int (length (doc_pages d)))) \<and>
      map source written = doc_pages d \<and>
      (\<forall>i < length (doc_pages d).
         label (written ! i) = (start_number + 2 * int i, start_number + 2 * int i + 1))"
proof -
  from assms(2) have r: "readable d" and w: "writable d"
    and c: "list_all composable (doc_pages d)"
    by (simp_all add: processable_def)
  obtain written where pp:
    "process_pages config string_width start_number 1 (doc_pages d) [] =
       Inr ([] @ written, start_number + 2 * int (length (doc_pages d)))"
    and rest: "map source written = doc_pages d"
      "\<forall>i < length (doc_pages d).
         label (written ! i) = (start_number + 2 * int i, start_number + 2 * int i + 1)"
    using process_pages_ok [OF assms(1) c, of string_width start_number 1 "[]"] by blast
  obtain digits where dg: "getitem config ''DIGITS'' = Inr digits"
    using getitem_digits [OF assms(1)] by blast
  have "process_pdf d out start_number config string_width fs =
      (fs(out \<mapsto> written), Inr (start_number + 2 * int (length (doc_pages d))))"
    using r w pp by (simp add: process_pdf_def dg and_then_Inr)
  with rest show ?thesis by blast
qed

lemma process_pdf_page_failure:
  assumes "\<not> list_all composable (doc_pages d)"
  shows "\<exists>e. process_pdf d out start_number config string_width fs = (fs, Inl e)"
proof (cases "readable d")
  case False
  then show ?thesis by (simp add: process_pdf_def)
next
  case True
  obtain e where "process_pages config string_width start_number 1 (doc_pages d) [] = Inl e"
    using process_pages_fail [OF assms] by blast
  with True show ?thesis by (simp add: process_pdf_def)
qed

lemma process_pdf_failed_untouched:
  assumes "set required \<subseteq> dom config"
    "snd (process_pdf d out start_number config string_width fs) = Inl e"
  shows "fst (process_pdf d out start_number config string_width fs) = fs"
proof -
  obtain digits where dg: "getitem config ''DIGITS'' = Inr digits"
    using getitem_digits [OF assms(1)] by blast
  from assms(2) show ?thesis
    by (auto simp add: process_pdf_def dg and_then_Inr split: if_splits sum.splits)
qed

lemma labels_in_order:
  assumes "length written = n"
    "\<forall>i < n. label (written ! i) = (c + 2 * int i, c + 2 * int i + 1)"
  shows "map label written = map (\<lambda>i. (c + 2 * int i, c + 2 * int i + 1)) [0..<n]"
  using assms by (intro nth_equalityI) simp_all

text \<open>
  Claim C1. For every start number \<open>current\<close> and every document that can be processed
  (with a configuration produced by \<open>load_config\<close>), \<open>process_pdf\<close> writes one numbered
  page for each page of the document, in page order, and returns
  \<open>current + 2 * page_count\<close>. The page with 1-based index \<open>i\<close> carries the labels
  \<open>(current + 2 * (i - 1), current + 2 * (i - 1) + 1)\<close>, so the second label of a page is
  its first plus 1 and the first labels of consecutive pages differ by 2. A document
  without pages gives no numbered page and returns \<open>current\<close>.
\<close>

theorem labels_advance_by_two:
  assumes "load_config (Some lines) = Inr config" "processable d"
  shows "\<exists>written. process_pdf d out current config string_width fs =
        (fs(out \<mapsto> written), Inr (current + 2 * int (length (doc_pages d)))) \<and>
      length written = length (doc_pages d) \<and>
      map source written = doc_pages d \<and>
      map label written =
        map (\<lambda>i. (current + 2 * int i, current + 2 * int i + 1)) [0..<length (doc_pages d)] \<and>
      (\<forall>i. 1 \<le> i \<and> i \<le> length (doc_pages d) \<longrightarrow>
         label (written ! (i - 1)) =
           (current + 2 * (int i - 1), current + 2 * (int i - 1) + 1)) \<and>
      (\<forall>i < length written. snd (label (written ! i)) = fst (label (written ! i)) + 1) \<and>
      (\<forall>i. Suc i < length written \<longrightarrow>
         fst (label (written ! Suc i)) = fst (label (written ! i)) + 2)"
proof -
  have complete: "set required \<subseteq> dom config"
    using dom_load_config [OF assms(1)] by simp
  obtain written where
    run: "process_pdf d out current config string_width fs =
        (fs(out \<mapsto> written), Inr (current + 2 * int (length (doc_pages d))))"
    and src: "map source written = doc_pages d"
    and lab: "\<forall>i < length (doc_pages d).
         label (written ! i) = (current + 2 * int i, current + 2 * int i + 1)"
    using process_pdf_ok [OF complete assms(2)] by blast
  from src have len: "length written = length (doc_pages d)"
    by (metis length_map)
  have ordered: "map label written =
      map (\<lambda>i. (current + 2 * int i, current + 2 * int i + 1)) [0..<length (doc_pages d)]"
    using len lab by (rule labels_in_order)
  have one_based: "\<forall>i. 1 \<le> i \<and> i \<le> length (doc_pages d) \<longrightarrow>
         label (written ! (i - 1)) =
           (current + 2 * (int i - 1), current + 2 * (int i - 1) + 1)"
  proof (intro allI impI)
    fix i assume i: "1 \<le> i \<and> i \<le> length (doc_pages d)"
    then have "i - 1 < length (doc_pages d)" by arith
    with lab have "label (written ! (i - 1)) =
        (current + 2 * int (i - 1), current + 2 * int (i - 1) + 1)" by blast
    moreover from i have "int (i - 1) = int i - 1" by simp
    ultimately show "label (written ! (i - 1)) =
           (current + 2 * (int i - 1), current + 2 * (int i - 1) + 1)" by simp
  qed
  have pair: "\<forall>i < length written. snd (label (written ! i)) = fst (label (written ! i)) + 1"
    using lab len by simp
  have step: "\<forall>i. Suc i < length written \<longrightarrow>
         fst (label (written ! Suc i)) = fst (label (written ! i)) + 2"
    using lab len by simp
  from run len src ordered one_based pair step show ?thesis by blast
qed


theorem labels_advance_by_two_witness:
  "\<exists>written.
     process_pdf
       \<lparr>doc_name = ''a.pdf'', readable = True,
        doc_pages = [\<lparr>page_width = 595, page_height = 842, composable = True\<rparr>,
                     \<lparr>page_width = 595, page_height = 842, composable = True\<rparr>],
        writable = True\<rparr>
       ''a_numbered.pdf'' 1 (\<lambda>k. if k \<in> set required then Some 0 else None)
       (\<lambda>s. 6 * real (length s)) Map.empty =
       ([''a_numbered.pdf'' \<mapsto> written], Inr 5) \<and>
     map label written = [(1, 2), (3, 4)]"
proof -
  let ?d = "\<lparr>doc_name = ''a.pdf'', readable = True,
        doc_pages = [\<lparr>page_width = 595, page_height = 842, composable = True\<rparr>,
                     \<lparr>page_width = 595, page_height = 842, composable = True\<rparr>],
        writable = True\<rparr>"
  have p: "processable ?d" by (simp add: processable_def)
  have u: "[0..<2] = [0, Suc 0]" by (simp add: upt_rec)
  from labels_advance_by_two [OF load_config_empty p, of "''a_numbered.pdf''" 1
      "\<lambda>s. 6 * real (length s)" Map.empty]
  obtain written where
    "process_pdf ?d ''a_numbered.pdf'' 1 (\<lambda>k. if k \<in> set required then Some 0 else None)
       (\<lambda>s. 6 * real (length s)) Map.empty =
       ([''a_numbered.pdf'' \<mapsto> written], Inr (1 + 2 * int (length (doc_pages ?d))))"
    "map label written =
       map (\<lambda>i. (1 + 2 * int i, 1 + 2 * int i + 1)) [0..<length (doc_pages ?d)]"
    by blast
  then show ?thesis by (intro exI [of _ written]) (simp add: u)
qed

section \<open>The batch loop: properties\<close>

lemma run_batch_Nil: "run_batch mode base config sw fs [] = initial_batch base fs"
  by (simp add: run_batch_def)

lemma run_batch_snoc:
  "run_batch mode base config sw fs (ds @ [d]) =
     batch_step mode base config sw (run_batch mode base config sw fs ds) d"
  by (simp add: run_batch_def)

lemma step_report:
  "report (batch_step mode base config sw st d) =
     report st @
       [\<lparr>file_name = doc_name d,
         start = (if mode = ''1'' then base else next_number st),
         outcome = snd (process_pdf d (output_name (doc_name d))
                     (if mode = ''1'' then base else next_number st) config sw
                     (output_folder st))\<rparr>]"
  by (simp add: batch_step_def Let_def split: sum.splits)

lemma step_next_number:
  "next_number (batch_step mode base config sw st d) =
     (case snd (process_pdf d (output_name (doc_name d))
                  (if mode = ''1'' then base else next_number st) config sw (output_folder st)) of
        Inl e \<Rightarrow> next_number st
      | Inr n \<Rightarrow> n)"
  by (simp add: batch_step_def Let_def split: sum.splits)

lemma step_counts:
  "success_count (batch_step mode base config sw st d) +
   fail_count (batch_step mode base config sw st d) = Suc (success_count st + fail_count st)"
  by (simp add: batch_step_def Let_def split: sum.splits)

lemma length_report: "length (report (run_batch mode base config sw fs ds)) = length ds"
  by (induction ds rule: rev_induct)
    (simp_all add: run_batch_Nil initial_batch_def run_batch_snoc step_report)

lemma run_counts:
  "success_count (run_batch mode base config sw fs ds) +
   fail_count (run_batch mode base config sw fs ds) = length ds"
  by (induction ds rule: rev_induct)
    (simp_all add: run_batch_Nil initial_batch_def run_batch_snoc step_counts)

lemma report_take:
  "report (run_batch mode base config sw fs (take k ds)) =
     take k (report (run_batch mode base config sw fs ds))"
proof (induction ds rule: rev_induct)
  case Nil
  then show ?case by (simp add: run_batch_Nil initial_batch_def)
next
  case (snoc d ds)
  show ?case
  proof (cases "k \<le> length ds")
    case True
    then show ?thesis
      using snoc by (simp add: run_batch_snoc step_report length_report)
  next
    case False
    then show ?thesis by (simp add: length_report)
  qed
qed

lemma report_nth:
  assumes "k < length ds"
  shows "report (run_batch mode base config sw fs ds) ! k =
     \<lparr>file_name = doc_name (ds ! k),
      start = (if mode = ''1'' then base
               else next_number (run_batch mode base config sw fs (take k ds))),
      outcome = snd (process_pdf (ds ! k) (output_name (doc_name (ds ! k)))
                  (if mode = ''1'' then base
                   else next_number (run_batch mode base config sw fs (take k ds)))
                  config sw (output_folder (run_batch mode base config sw fs (take k ds))))\<rparr>"
proof -
  let ?rep = "report (run_batch mode base config sw fs ds)"
  let ?st = "run_batch mode base config sw fs (take k ds)"
  have "take (Suc k) ds = take k ds @ [ds ! k]"
    using assms by (rule take_Suc_conv_app_nth)
  then have "report (run_batch mode base config sw fs (take (Suc k) ds)) =
      report (batch_step mode base config sw ?st (ds ! k))"
    by (simp add: run_batch_snoc)
  then have eq: "take (Suc k) ?rep = report (batch_step mode base config sw ?st (ds ! k))"
    by (simp only: report_take)
  have "?rep ! k = take (Suc k) ?rep ! k" by simp
  also have "\<dots> = report (batch_step mode base config sw ?st (ds ! k)) ! k"
    by (simp only: eq)
  also have "length (report ?st) = k"
    using assms by (simp add: length_report)
  then have "report (batch_step mode base config sw ?st (ds ! k)) ! k =
      \<lparr>file_name = doc_name (ds ! k),
      start = (if mode = ''1'' then base else next_number ?st),
      outcome = snd (process_pdf (ds ! k) (output_name (doc_name (ds ! k)))
                  (if mode = ''1'' then base else next_number ?st)
                  config sw (output_folder ?st))\<rparr>"
    by (simp add: step_report nth_append)
  finally show ?thesis .
qed

lemma next_starts_snoc:
  "next_starts (ls @ [l]) =
     next_starts ls @ (case outcome l of Inl e \<Rightarrow> [] | Inr n \<Rightarrow> [n])"
  by (simp add: next_starts_def)

lemma next_number_last:
  "next_number (run_batch mode base config sw fs ds) =
     last (base # next_starts (report (run_batch mode base config sw fs ds)))"
proof (induction ds rule: rev_induct)
  case Nil
  then show ?case by (simp add: run_batch_Nil initial_batch_def next_starts_def)
next
  case (snoc d ds)
  let ?st = "run_batch mode base config sw fs ds"
  let ?r = "snd (process_pdf d (output_name (doc_name d))
      (if mode = ''1'' then base else next_number ?st) config sw (output_folder ?st))"
  have rep: "next_starts (report (run_batch mode base config sw fs (ds @ [d]))) =
      next_starts (report ?st) @ (case ?r of Inl e \<Rightarrow> [] | Inr n \<Rightarrow> [n])"
    by (simp only: run_batch_snoc step_report next_starts_snoc report_line.simps)
  have nxt: "next_number (run_batch mode base config sw fs (ds @ [d])) =
      (case ?r of Inl e \<Rightarrow> next_number ?st | Inr n \<Rightarrow> n)"
    by (simp only: run_batch_snoc step_next_number)
  show ?case
  proof (cases ?r)
    case (Inl e)
    then show ?thesis unfolding rep nxt using snoc by simp
  next
    case (Inr n)
    then show ?thesis unfolding rep nxt by simp
  qed
qed

lemma next_number_after:
  assumes "k < length ds"
  shows "next_number (run_batch mode base config sw fs (take (Suc k) ds)) =
     (case outcome (report (run_batch mode base config sw fs ds) ! k) of
        Inl e \<Rightarrow> next_number (run_batch mode base config sw fs (take k ds))
      | Inr n \<Rightarrow> n)"
proof -
  have "take (Suc k) ds = take k ds @ [ds ! k]"
    using assms by (rule take_Suc_conv_app_nth)
  then show ?thesis
    by (simp add: run_batch_snoc step_next_number report_nth [OF assms])
qed


lemma continuous_start:
  assumes "k < length ds"
  shows "start (report (run_batch ''2'' base config sw fs ds) ! k) =
     next_number (run_batch ''2'' base config sw fs (take k ds))"
  by (simp add: report_nth [OF assms])

lemma reseed_start:
  assumes "k < length ds"
  shows "start (report (run_batch ''1'' base config sw fs ds) ! k) = base"
  by (simp add: report_nth [OF assms])

lemma report_line_of_doc:
  assumes "k < length ds"
  shows "file_name (report (run_batch mode base config sw fs ds) ! k) = doc_name (ds ! k) \<and>
     outcome (report (run_batch mode base config sw fs ds) ! k) =
       snd (process_pdf (ds ! k) (output_name (doc_name (ds ! k)))
              (start (report (run_batch mode base config sw fs ds) ! k)) config sw
              (output_folder (run_batch mode base config sw fs (take k ds))))"
  by (simp add: report_nth [OF assms])

lemma continuous_after_failure:
  assumes "Suc k < length ds"
    "outcome (report (run_batch ''2'' base config sw fs ds) ! k) = Inl e"
  shows "start (report (run_batch ''2'' base config sw fs ds) ! Suc k) =
     start (report (run_batch ''2'' base config sw fs ds) ! k)"
proof -
  from assms(1) have k: "k < length ds" by simp
  have "start (report (run_batch ''2'' base config sw fs ds) ! Suc k) =
      next_number (run_batch ''2'' base config sw fs (take (Suc k) ds))"
    using assms(1) by (rule continuous_start)
  also have "\<dots> = next_number (run_batch ''2'' base config sw fs (take k ds))"
    by (simp add: next_number_after [OF k] assms(2))
  also have "\<dots> = start (report (run_batch ''2'' base config sw fs ds) ! k)"
    using k by (rule continuous_start [symmetric])
  finally show ?thesis .
qed

lemma continuous_after_success:
  assumes "Suc k < length ds"
    "outcome (report (run_batch ''2'' base config sw fs ds) ! k) = Inr n"
  shows "start (report (run_batch ''2'' base config sw fs ds) ! Suc k) = n"
proof -
  from assms(1) have k: "k < length ds" by simp
  have "start (report (run_batch ''2'' base config sw fs ds) ! Suc k) =
      next_number (run_batch ''2'' base config sw fs (take (Suc k) ds))"
    using assms(1) by (rule continuous_start)
  also have "\<dots> = n"
    by (simp add: next_number_after [OF k] assms(2))
  finally show ?thesis .
qed

lemma continuous_start_last:
  assumes "k < length ds"
  shows "start (report (run_batch ''2'' base config sw fs ds) ! k) =
     last (base # next_starts (take k (report (run_batch ''2'' base config sw fs ds))))"
  by (simp only: continuous_start [OF assms] next_number_last report_take)

text \<open>
  Claim C9. In continuous mode a document that fails consumes no numbers. The running
  counter changes only when \<open>process_pdf\<close> returns: a step whose document fails leaves
  \<open>next_number\<close> as it was, and a step whose document succeeds sets it to the number
  returned. So, for every batch, the report has one line for each document, holding
  the outcome of processing that document from the start number of the line; the start
  number of a document is the number returned by the most recent document before it that
  succeeded, or the batch start number when none has; and the document after a failed
  one starts from the start number of the failed one.
\<close>

theorem failed_document_keeps_counter:
  "(let rep = report (run_batch ''2'' base config sw fs docs)
    in length rep = length docs \<and>
       (\<forall>k < length docs.
          file_name (rep ! k) = doc_name (docs ! k) \<and>
          outcome (rep ! k) =
            snd (process_pdf (docs ! k) (output_name (doc_name (docs ! k))) (start (rep ! k))
                   config sw (output_folder (run_batch ''2'' base config sw fs (take k docs)))) \<and>
          start (rep ! k) = last (base # next_starts (take k rep))) \<and>
       (\<forall>k e. Suc k < length docs \<and> outcome (rep ! k) = Inl e \<longrightarrow>
          start (rep ! Suc k) = start (rep ! k))) \<and>
   (\<forall>e. snd (process_pdf d (output_name (doc_name d)) (next_number st) config sw
              (output_folder st)) = Inl e \<longrightarrow>
      next_number (batch_step ''2'' base config sw st d) = next_number st) \<and>
   (\<forall>n. snd (process_pdf d (output_name (doc_name d)) (next_number st) config sw
              (output_folder st)) = Inr n \<longrightarrow>
      next_number (batch_step ''2'' base config sw st d) = n)"
proof -
  let ?rep = "report (run_batch ''2'' base config sw fs docs)"
  have a: "length ?rep = length docs" by (rule length_report)
  have b: "\<forall>k < length docs.
          file_name (?rep ! k) = doc_name (docs ! k) \<and>
          outcome (?rep ! k) =
            snd (process_pdf (docs ! k) (output_name (doc_name (docs ! k))) (start (?rep ! k))
                   config sw (output_folder (run_batch ''2'' base config sw fs (take k docs)))) \<and>
          start (?rep ! k) = last (base # next_starts (take k ?rep))"
    using report_line_of_doc [of _ docs "''2''" base config sw fs]
      continuous_start_last [of _ docs base config sw fs]
    by blast
  have c: "\<forall>k e. Suc k < length docs \<and> outcome (?rep ! k) = Inl e \<longrightarrow>
          start (?rep ! Suc k) = start (?rep ! k)"
    using continuous_after_failure [of _ docs base config sw fs] by blast
  have d: "\<forall>e. snd (process_pdf d (output_name (doc_name d)) (next_number st) config sw
              (output_folder st)) = Inl e \<longrightarrow>
      next_number (batch_step ''2'' base config sw st d) = next_number st"
    by (simp add: step_next_number)
  have e: "\<forall>n. snd (process_pdf d (output_name (doc_name d)) (next_number st) config sw
              (output_folder st)) = Inr n \<longrightarrow>
      next_number (batch_step ''2'' base config sw st d) = n"
    by (simp add: step_next_number)
  show ?thesis unfolding Let_def using a b c d e by blast
qed


lemma process_pdf_ok_result:
  assumes "set required \<subseteq> dom config" "processable d"
  shows "snd (process_pdf d out start_number config sw fs) =
     Inr (start_number + 2 * int (length (doc_pages d)))"
proof -
  obtain written where "process_pdf d out start_number config sw fs =
      (fs(out \<mapsto> written), Inr (start_number + 2 * int (length (doc_pages d))))"
    using process_pdf_ok [OF assms] by blast
  then show ?thesis by simp
qed

lemma process_pdf_page_failure_result:
  assumes "\<not> list_all composable (doc_pages d)"
  shows "\<exists>e. snd (process_pdf d out start_number config sw fs) = Inl e"
proof -
  obtain e where "process_pdf d out start_number config sw fs = (fs, Inl e)"
    using process_pdf_page_failure [OF assms] by blast
  then show ?thesis by simp
qed

lemma default_config_complete:
  "set required \<subseteq> dom (\<lambda>k. if k \<in> set required then Some (0::int) else None)"
  by (auto simp add: dom_def)

theorem failed_document_keeps_counter_witness:
  "(let rep = report (run_batch ''2'' 1 (\<lambda>k. if k \<in> set required then Some 0 else None)
                (\<lambda>s. 6 * real (length s)) Map.empty
                [\<lparr>doc_name = ''a.pdf'', readable = True,
                  doc_pages = [\<lparr>page_width = 595, page_height = 842, composable = True\<rparr>],
                  writable = True\<rparr>,
                 \<lparr>doc_name = ''b.pdf'', readable = True,
                  doc_pages = [\<lparr>page_width = 595, page_height = 842, composable = False\<rparr>],
                  writable = True\<rparr>,
                 \<lparr>doc_name = ''c.pdf'', readable = True,
                  doc_pages = [\<lparr>page_width = 595, page_height = 842, composable = True\<rparr>],
                  writable = True\<rparr>])
    in start (rep ! 0) = 1 \<and> outcome (rep ! 0) = Inr 3 \<and> start (rep ! 1) = 3 \<and>
       (\<exists>e. outcome (rep ! 1) = Inl e) \<and> start (rep ! 2) = 3)"
proof -
  define config :: config where "config = (\<lambda>k. if k \<in> set required then Some 0 else None)"
  define sw :: "string \<Rightarrow> real" where "sw = (\<lambda>s. 6 * real (length s))"
  define pg where "pg = \<lparr>page_width = 595, page_height = 842, composable = True\<rparr>"
  define bad where "bad = \<lparr>page_width = 595, page_height = 842, composable = False\<rparr>"
  define A where "A = \<lparr>doc_name = ''a.pdf'', readable = True, doc_pages = [pg], writable = True\<rparr>"
  define B where "B = \<lparr>doc_name = ''b.pdf'', readable = True, doc_pages = [bad], writable = True\<rparr>"
  define C where "C = \<lparr>doc_name = ''c.pdf'', readable = True, doc_pages = [pg], writable = True\<rparr>"
  define rep where "rep = report (run_batch ''2'' 1 config sw Map.empty [A, B, C])"
  have complete: "set required \<subseteq> dom config"
    unfolding config_def by (rule default_config_complete)
  have okA: "processable A" by (simp add: A_def pg_def processable_def)
  have badB: "\<not> list_all composable (doc_pages B)" by (simp add: B_def bad_def)
  have main: "length rep = length [A, B, C] \<and>
      (\<forall>k < length [A, B, C].
          file_name (rep ! k) = doc_name ([A, B, C] ! k) \<and>
          outcome (rep ! k) =
            snd (process_pdf ([A, B, C] ! k) (output_name (doc_name ([A, B, C] ! k)))
                   (start (rep ! k)) config sw
                   (output_folder (run_batch ''2'' 1 config sw Map.empty (take k [A, B, C])))) \<and>
          start (rep ! k) = last (1 # next_starts (take k rep))) \<and>
      (\<forall>k e. Suc k < length [A, B, C] \<and> outcome (rep ! k) = Inl e \<longrightarrow>
          start (rep ! Suc k) = start (rep ! k))"
    using failed_document_keeps_counter [where base = 1 and config = config and sw = sw
        and fs = Map.empty and docs = "[A, B, C]" and d = A
        and st = "initial_batch 1 Map.empty", unfolded Let_def, folded rep_def]
    by blast
  have l3: "length [A, B, C] = 3" by simp
  note main3 = main [unfolded l3]
  from main3 have len: "length rep = 3" by blast
  from main3 have line: "outcome (rep ! k) =
        snd (process_pdf ([A, B, C] ! k) (output_name (doc_name ([A, B, C] ! k)))
               (start (rep ! k)) config sw
               (output_folder (run_batch ''2'' 1 config sw Map.empty (take k [A, B, C])))) \<and>
      start (rep ! k) = last (1 # next_starts (take k rep))" if "k < 3" for k
    using that by blast
  from main3 have keep: "start (rep ! Suc k) = start (rep ! k)"
    if "Suc k < 3" "outcome (rep ! k) = Inl e" for k e
    using that by blast
  have s0: "start (rep ! 0) = 1"
    using line [of 0] by (simp add: next_starts_def)
  have "outcome (rep ! 0) = Inr (1 + 2 * int (length (doc_pages A)))"
    using line [of 0] process_pdf_ok_result [OF complete okA] by (simp add: s0)
  then have o0: "outcome (rep ! 0) = Inr 3" by (simp add: A_def)
  have "take (Suc 0) rep = take 0 rep @ [rep ! 0]"
    using len by (intro take_Suc_conv_app_nth) simp
  then have s1: "start (rep ! 1) = 3"
    using line [of 1] by (simp add: next_starts_def o0)
  have "\<exists>e. outcome (rep ! 1) = Inl e"
    using line [of 1] process_pdf_page_failure_result [OF badB] by simp
  then obtain e where o1: "outcome (rep ! 1) = Inl e" by blast
  have s2: "start (rep ! 2) = 3"
    using keep [of 1 e] o1 s1 by (simp add: numeral_2_eq_2)
  show ?thesis
    unfolding Let_def
    using s0 o0 s1 o1 s2
    unfolding rep_def config_def sw_def A_def B_def C_def pg_def bad_def
    by blast
qed

lemma step_ok:
  assumes "set required \<subseteq> dom config" "processable d"
  shows "\<exists>written.
     batch_step mode base config sw st d =
       st\<lparr>next_number := (if mode = ''1'' then base else next_number st)
                           + 2 * int (length (doc_pages d)),
          success_count := success_count st + 1,
          output_folder := (output_folder st)(output_name (doc_name d) \<mapsto> written),
          report := report st @
            [\<lparr>file_name = doc_name d,
              start = (if mode = ''1'' then base else next_number st),
              outcome = Inr ((if mode = ''1'' then base else next_number st)
                             + 2 * int (length (doc_pages d)))\<rparr>]\<rparr> \<and>
     length written = length (doc_pages d) \<and>
     map label written =
       map (\<lambda>i. ((if mode = ''1'' then base else next_number st) + 2 * int i,
                  (if mode = ''1'' then base else next_number st) + 2 * int i + 1))
         [0..<length (doc_pages d)]"
proof -
  define seed where "seed = (if mode = ''1'' then base else next_number st)"
  obtain written where
    run: "process_pdf d (output_name (doc_name d)) seed config sw (output_folder st) =
        ((output_folder st)(output_name (doc_name d) \<mapsto> written),
         Inr (seed + 2 * int (length (doc_pages d))))"
    and src: "map source written = doc_pages d"
    and lab: "\<forall>i < length (doc_pages d).
         label (written ! i) = (seed + 2 * int i, seed + 2 * int i + 1)"
    using process_pdf_ok [OF assms] by blast
  from src have len: "length written = length (doc_pages d)"
    by (metis length_map)
  have ordered: "map label written =
      map (\<lambda>i. (seed + 2 * int i, seed + 2 * int i + 1)) [0..<length (doc_pages d)]"
    using len lab by (rule labels_in_order)
  have "batch_step mode base config sw st d =
       st\<lparr>next_number := seed + 2 * int (length (doc_pages d)),
          success_count := success_count st + 1,
          output_folder := (output_folder st)(output_name (doc_name d) \<mapsto> written),
          report := report st @
            [\<lparr>file_name = doc_name d, start = seed,
              outcome = Inr (seed + 2 * int (length (doc_pages d)))\<rparr>]\<rparr>"
    by (simp add: batch_step_def Let_def seed_def [symmetric] run)
  with len ordered show ?thesis unfolding seed_def by blast
qed

lemma step_page_failure:
  assumes "\<not> list_all composable (doc_pages d)"
  shows "\<exists>e.
     batch_step mode base config sw st d =
       st\<lparr>fail_count := fail_count st + 1,
          report := report st @
            [\<lparr>file_name = doc_name d,
              start = (if mode = ''1'' then base else next_number st),
              outcome = Inl e\<rparr>]\<rparr>"
proof -
  define seed where "seed = (if mode = ''1'' then base else next_number st)"
  obtain e where
    "process_pdf d (output_name (doc_name d)) seed config sw (output_folder st) =
       (output_folder st, Inl e)"
    using process_pdf_page_failure [OF assms] by blast
  then have "batch_step mode base config sw st d =
       st\<lparr>fail_count := fail_count st + 1,
          report := report st @
            [\<lparr>file_name = doc_name d, start = seed, outcome = Inl e\<rparr>]\<rparr>"
    by (simp add: batch_step_def Let_def seed_def [symmetric])
  then show ?thesis unfolding seed_def by blast
qed

lemma run_batch_two:
  "run_batch mode base config sw fs [d1, d2] =
     batch_step mode base config sw
       (batch_step mode base config sw (initial_batch base fs) d1) d2"
  by (simp add: run_batch_def)

lemma run_batch_three:
  "run_batch mode base config sw fs [d1, d2, d3] =
     batch_step mode base config sw
       (batch_step mode base config sw
          (batch_step mode base config sw (initial_batch base fs) d1) d2) d3"
  by (simp add: run_batch_def)

lemma upt_2: "[0..<2] = [0, Suc 0]"
  by (simp add: upt_rec)

lemma two_documents:
  assumes "set required \<subseteq> dom config" "processable D1" "processable D2"
    "length (doc_pages D1) = 2" "length (doc_pages D2) = 1"
    "output_name (doc_name D1) \<noteq> output_name (doc_name D2)"
  shows "\<exists>w1 w2.
     output_folder (run_batch mode 1 config sw fs [D1, D2]) (output_name (doc_name D1)) = Some w1 \<and>
     output_folder (run_batch mode 1 config sw fs [D1, D2]) (output_name (doc_name D2)) = Some w2 \<and>
     map label w1 = [(1, 2), (3, 4)] \<and>
     map label w2 = (if mode = ''1'' then [(1, 2)] else [(5, 6)])"
proof -
  let ?st0 = "initial_batch 1 fs"
  obtain w1 where
    s1: "batch_step mode 1 config sw ?st0 D1 =
       ?st0\<lparr>next_number := (if mode = ''1'' then 1 else next_number ?st0)
                           + 2 * int (length (doc_pages D1)),
          success_count := success_count ?st0 + 1,
          output_folder := (output_folder ?st0)(output_name (doc_name D1) \<mapsto> w1),
          report := report ?st0 @
            [\<lparr>file_name = doc_name D1,
              start = (if mode = ''1'' then 1 else next_number ?st0),
              outcome = Inr ((if mode = ''1'' then 1 else next_number ?st0)
                             + 2 * int (length (doc_pages D1)))\<rparr>]\<rparr>"
    and l1: "map label w1 =
       map (\<lambda>i. ((if mode = ''1'' then 1 else next_number ?st0) + 2 * int i,
                  (if mode = ''1'' then 1 else next_number ?st0) + 2 * int i + 1))
         [0..<length (doc_pages D1)]"
    using step_ok [OF assms(1) assms(2), of mode 1 sw ?st0] by blast
  let ?st1 = "batch_step mode 1 config sw ?st0 D1"
  have n1: "next_number ?st1 = 5"
    unfolding s1 by (simp add: assms(4) initial_batch_def)
  have f1: "output_folder ?st1 = fs(output_name (doc_name D1) \<mapsto> w1)"
    unfolding s1 by (simp add: initial_batch_def)
  obtain w2 where
    s2: "batch_step mode 1 config sw ?st1 D2 =
       ?st1\<lparr>next_number := (if mode = ''1'' then 1 else next_number ?st1)
                           + 2 * int (length (doc_pages D2)),
          success_count := success_count ?st1 + 1,
          output_folder := (output_folder ?st1)(output_name (doc_name D2) \<mapsto> w2),
          report := report ?st1 @
            [\<lparr>file_name = doc_name D2,
              start = (if mode = ''1'' then 1 else next_number ?st1),
              outcome = Inr ((if mode = ''1'' then 1 else next_number ?st1)
                             + 2 * int (length (doc_pages D2)))\<rparr>]\<rparr>"
    and l2: "map label w2 =
       map (\<lambda>i. ((if mode = ''1'' then 1 else next_number ?st1) + 2 * int i,
                  (if mode = ''1'' then 1 else next_number ?st1) + 2 * int i + 1))
         [0..<length (doc_pages D2)]"
    using step_ok [OF assms(1) assms(3), of mode 1 sw ?st1] by blast
  have f2: "output_folder (run_batch mode 1 config sw fs [D1, D2]) =
      fs(output_name (doc_name D1) \<mapsto> w1, output_name (doc_name D2) \<mapsto> w2)"
    unfolding run_batch_two by (subst s2) (simp add: f1)
  have a: "map label w1 = [(1, 2), (3, 4)]"
    using l1 by (simp add: assms(4) upt_2 initial_batch_def)
  have b: "map label w2 = (if mode = ''1'' then [(1, 2)] else [(5, 6)])"
    using l2 by (simp add: assms(5) n1)
  show ?thesis unfolding f2 using a b assms(6) by simp
qed


text \<open>
  Claim C2. The two numbering modes differ only in the start number given to each
  document. In mode 1 every document starts from the batch start number. In mode 2 the
  first document starts from the batch start number, and a document that follows one
  that succeeded starts from the number that one returned. In both modes the line of a
  document holds the outcome of \<open>process_pdf\<close> on that document from the start number of
  the line, and a step is the same in both modes whenever the running counter equals the
  batch start number. For a document of two pages followed by a document of one page,
  with batch start 1, mode 1 writes the labels (1,2) (3,4) and (1,2), and mode 2 writes
  (1,2) (3,4) and (5,6).
\<close>

theorem modes_differ_only_in_seed:
  "(\<forall>k < length docs. start (report (run_batch ''1'' base config sw fs docs) ! k) = base) \<and>
   (docs \<noteq> [] \<longrightarrow> start (report (run_batch ''2'' base config sw fs docs) ! 0) = base) \<and>
   (\<forall>k n. Suc k < length docs \<and>
          outcome (report (run_batch ''2'' base config sw fs docs) ! k) = Inr n \<longrightarrow>
      start (report (run_batch ''2'' base config sw fs docs) ! Suc k) = n) \<and>
   (\<forall>k < length docs.
      file_name (report (run_batch mode base config sw fs docs) ! k) = doc_name (docs ! k) \<and>
      outcome (report (run_batch mode base config sw fs docs) ! k) =
        snd (process_pdf (docs ! k) (output_name (doc_name (docs ! k)))
               (start (report (run_batch mode base config sw fs docs) ! k)) config sw
               (output_folder (run_batch mode base config sw fs (take k docs))))) \<and>
   (next_number st = base \<longrightarrow>
      batch_step ''1'' base config sw st d = batch_step ''2'' base config sw st d) \<and>
   (load_config (Some lines) = Inr config \<and> processable DA \<and> processable DB \<and>
    length (doc_pages DA) = 2 \<and> length (doc_pages DB) = 1 \<and>
    output_name (doc_name DA) \<noteq> output_name (doc_name DB) \<longrightarrow>
      (\<exists>w1 w2.
         output_folder (run_batch ''1'' 1 config sw fs [DA, DB]) (output_name (doc_name DA))
           = Some w1 \<and>
         output_folder (run_batch ''1'' 1 config sw fs [DA, DB]) (output_name (doc_name DB))
           = Some w2 \<and>
         map label w1 = [(1, 2), (3, 4)] \<and> map label w2 = [(1, 2)]) \<and>
      (\<exists>w1 w2.
         output_folder (run_batch ''2'' 1 config sw fs [DA, DB]) (output_name (doc_name DA))
           = Some w1 \<and>
         output_folder (run_batch ''2'' 1 config sw fs [DA, DB]) (output_name (doc_name DB))
           = Some w2 \<and>
         map label w1 = [(1, 2), (3, 4)] \<and> map label w2 = [(5, 6)]))"
proof -
  have a: "\<forall>k < length docs. start (report (run_batch ''1'' base config sw fs docs) ! k) = base"
    using reseed_start [of _ docs base config sw fs] by blast
  have b: "docs \<noteq> [] \<longrightarrow> start (report (run_batch ''2'' base config sw fs docs) ! 0) = base"
    using continuous_start_last [of 0 docs base config sw fs]
    by (simp add: next_starts_def)
  have c: "\<forall>k n. Suc k < length docs \<and>
          outcome (report (run_batch ''2'' base config sw fs docs) ! k) = Inr n \<longrightarrow>
      start (report (run_batch ''2'' base config sw fs docs) ! Suc k) = n"
    using continuous_after_success [of _ docs base config sw fs] by blast
  have d: "\<forall>k < length docs.
      file_name (report (run_batch mode base config sw fs docs) ! k) = doc_name (docs ! k) \<and>
      outcome (report (run_batch mode base config sw fs docs) ! k) =
        snd (process_pdf (docs ! k) (output_name (doc_name (docs ! k)))
               (start (report (run_batch mode base config sw fs docs) ! k)) config sw
               (output_folder (run_batch mode base config sw fs (take k docs))))"
    using report_line_of_doc [of _ docs mode base config sw fs] by blast
  have e: "next_number st = base \<longrightarrow>
      batch_step ''1'' base config sw st d = batch_step ''2'' base config sw st d"
    by (simp add: batch_step_def)
  have f: "(\<exists>w1 w2.
         output_folder (run_batch ''1'' 1 config sw fs [DA, DB]) (output_name (doc_name DA))
           = Some w1 \<and>
         output_folder (run_batch ''1'' 1 config sw fs [DA, DB]) (output_name (doc_name DB))
           = Some w2 \<and>
         map label w1 = [(1, 2), (3, 4)] \<and> map label w2 = [(1, 2)]) \<and>
      (\<exists>w1 w2.
         output_folder (run_batch ''2'' 1 config sw fs [DA, DB]) (output_name (doc_name DA))
           = Some w1 \<and>
         output_folder (run_batch ''2'' 1 config sw fs [DA, DB]) (output_name (doc_name DB))
           = Some w2 \<and>
         map label w1 = [(1, 2), (3, 4)] \<and> map label w2 = [(5, 6)])"
    if h: "load_config (Some lines) = Inr config \<and> processable DA \<and> processable DB \<and>
      length (doc_pages DA) = 2 \<and> length (doc_pages DB) = 1 \<and>
      output_name (doc_name DA) \<noteq> output_name (doc_name DB)"
  proof -
    from h have complete: "set required \<subseteq> dom config"
      using dom_load_config [of lines config] by simp
    from h have p: "processable DA" "processable DB" "length (doc_pages DA) = 2"
      "length (doc_pages DB) = 1" "output_name (doc_name DA) \<noteq> output_name (doc_name DB)"
      by simp_all
    show ?thesis
      using two_documents [OF complete p, of "''1''" sw fs]
        two_documents [OF complete p, of "''2''" sw fs]
      by simp
  qed
  from a b c d e f show ?thesis by blast
qed

lemma output_name_a: "output_name ''a.pdf'' = ''a_numbered.pdf''"
  by (simp add: output_name_def stem_def rfind_def)

lemma output_name_b: "output_name ''b.pdf'' = ''b_numbered.pdf''"
  by (simp add: output_name_def stem_def rfind_def)

lemma output_name_c: "output_name ''c.pdf'' = ''c_numbered.pdf''"
  by (simp add: output_name_def stem_def rfind_def)

theorem modes_differ_only_in_seed_witness:
  "(\<exists>w1 w2.
      output_folder
        (run_batch ''1'' 1 (\<lambda>k. if k \<in> set required then Some 0 else None)
           (\<lambda>s. 6 * real (length s)) Map.empty
           [\<lparr>doc_name = ''a.pdf'', readable = True,
             doc_pages = [\<lparr>page_width = 595, page_height = 842, composable = True\<rparr>,
                          \<lparr>page_width = 595, page_height = 842, composable = True\<rparr>],
             writable = True\<rparr>,
            \<lparr>doc_name = ''b.pdf'', readable = True,
             doc_pages = [\<lparr>page_width = 595, page_height = 842, composable = True\<rparr>],
             writable = True\<rparr>]) ''a_numbered.pdf'' = Some w1 \<and>
      output_folder
        (run_batch ''1'' 1 (\<lambda>k. if k \<in> set required then Some 0 else None)
           (\<lambda>s. 6 * real (length s)) Map.empty
           [\<lparr>doc_name = ''a.pdf'', readable = True,
             doc_pages = [\<lparr>page_width = 595, page_height = 842, composable = True\<rparr>,
                          \<lparr>page_width = 595, page_height = 842, composable = True\<rparr>],
             writable = True\<rparr>,
            \<lparr>doc_name = ''b.pdf'', readable = True,
             doc_pages = [\<lparr>page_width = 595, page_height = 842, composable = True\<rparr>],
             writable = True\<rparr>]) ''b_numbered.pdf'' = Some w2 \<and>
      map label w1 = [(1, 2), (3, 4)] \<and> map label w2 = [(1, 2)]) \<and>
   (\<exists>w1 w2.
      output_folder
        (run_batch ''2'' 1 (\<lambda>k. if k \<in> set required then Some 0 else None)
           (\<lambda>s. 6 * real (length s)) Map.empty
           [\<lparr>doc_name = ''a.pdf'', readable = True,
             doc_pages = [\<lparr>page_width = 595, page_height = 842, composable = True\<rparr>,
                          \<lparr>page_width = 595, page_height = 842, composable = True\<rparr>],
             writable = True\<rparr>,
            \<lparr>doc_name = ''b.pdf'', readable = True,
             doc_pages = [\<lparr>page_width = 595, page_height = 842, composable = True\<rparr>],
             writable = True\<rparr>]) ''a_numbered.pdf'' = Some w1 \<and>
      output_folder
        (run_batch ''2'' 1 (\<lambda>k. if k \<in> set required then Some 0 else None)
           (\<lambda>s. 6 * real (length s)) Map.empty
           [\<lparr>doc_name = ''a.pdf'', readable = True,
             doc_pages = [\<lparr>page_width = 595, page_height = 842, composable = True\<rparr>,
                          \<lparr>page_width = 595, page_height = 842, composable = True\<rparr>],
             writable = True\<rparr>,
            \<lparr>doc_name = ''b.pdf'', readable = True,
             doc_pages = [\<lparr>page_width = 595, page_height = 842, composable = True\<rparr>],
             writable = True\<rparr>]) ''b_numbered.pdf'' = Some w2 \<and>
      map label w1 = [(1, 2), (3, 4)] \<and> map label w2 = [(5, 6)])"
proof -
  define config :: config where "config = (\<lambda>k. if k \<in> set required then Some 0 else None)"
  define sw :: "string \<Rightarrow> real" where "sw = (\<lambda>s. 6 * real (length s))"
  define pg where "pg = \<lparr>page_width = 595, page_height = 842, composable = True\<rparr>"
  define A where "A = \<lparr>doc_name = ''a.pdf'', readable = True, doc_pages = [pg, pg], writable = True\<rparr>"
  define B where "B = \<lparr>doc_name = ''b.pdf'', readable = True, doc_pages = [pg], writable = True\<rparr>"
  have cfg: "load_config (Some []) = Inr config"
    unfolding config_def by (rule load_config_empty)
  have names: "output_name (doc_name A) = ''a_numbered.pdf''"
    "output_name (doc_name B) = ''b_numbered.pdf''"
    by (simp_all add: A_def B_def output_name_a output_name_b)
  have h: "load_config (Some []) = Inr config \<and> processable A \<and> processable B \<and>
    length (doc_pages A) = 2 \<and> length (doc_pages B) = 1 \<and>
    output_name (doc_name A) \<noteq> output_name (doc_name B)"
    unfolding names by (simp add: cfg A_def B_def pg_def processable_def)
  have "(\<exists>w1 w2.
         output_folder (run_batch ''1'' 1 config sw Map.empty [A, B]) (output_name (doc_name A))
           = Some w1 \<and>
         output_folder (run_batch ''1'' 1 config sw Map.empty [A, B]) (output_name (doc_name B))
           = Some w2 \<and>
         map label w1 = [(1, 2), (3, 4)] \<and> map label w2 = [(1, 2)]) \<and>
      (\<exists>w1 w2.
         output_folder (run_batch ''2'' 1 config sw Map.empty [A, B]) (output_name (doc_name A))
           = Some w1 \<and>
         output_folder (run_batch ''2'' 1 config sw Map.empty [A, B]) (output_name (doc_name B))
           = Some w2 \<and>
         map label w1 = [(1, 2), (3, 4)] \<and> map label w2 = [(5, 6)])"
    using h modes_differ_only_in_seed [where lines = "[]" and config = config and DA = A
        and DB = B and sw = sw and fs = Map.empty and docs = "[]" and base = 1
        and st = "initial_batch 1 Map.empty" and d = A and mode = "''1''"]
    by blast
  then show ?thesis
    unfolding names unfolding A_def B_def config_def sw_def pg_def .
qed


lemma three_documents:
  assumes "set required \<subseteq> dom config" "processable DA"
    "\<not> list_all composable (doc_pages DB)" "processable DC"
  shows "\<exists>wa wc na e nc.
     success_count (run_batch mode base config sw fs [DA, DB, DC]) = 2 \<and>
     fail_count (run_batch mode base config sw fs [DA, DB, DC]) = 1 \<and>
     output_folder (run_batch mode base config sw fs [DA, DB, DC]) =
       fs(output_name (doc_name DA) \<mapsto> wa, output_name (doc_name DC) \<mapsto> wc) \<and>
     length wa = length (doc_pages DA) \<and> length wc = length (doc_pages DC) \<and>
     map outcome (report (run_batch mode base config sw fs [DA, DB, DC])) =
       [Inr na, Inl e, Inr nc]"
proof -
  define st0 where "st0 = initial_batch base fs"
  define st1 where "st1 = batch_step mode base config sw st0 DA"
  define st2 where "st2 = batch_step mode base config sw st1 DB"
  define st3 where "st3 = batch_step mode base config sw st2 DC"
  have run: "run_batch mode base config sw fs [DA, DB, DC] = st3"
    by (simp add: run_batch_three st3_def st2_def st1_def st0_def)
  obtain wa na where
    s1: "st1 = st0\<lparr>next_number := na, success_count := success_count st0 + 1,
          output_folder := (output_folder st0)(output_name (doc_name DA) \<mapsto> wa),
          report := report st0 @
            [\<lparr>file_name = doc_name DA,
              start = (if mode = ''1'' then base else next_number st0),
              outcome = Inr na\<rparr>]\<rparr>"
    and la: "length wa = length (doc_pages DA)"
    unfolding st1_def using step_ok [OF assms(1) assms(2), of mode base sw st0] by blast
  obtain e where
    s2: "st2 = st1\<lparr>fail_count := fail_count st1 + 1,
          report := report st1 @
            [\<lparr>file_name = doc_name DB,
              start = (if mode = ''1'' then base else next_number st1),
              outcome = Inl e\<rparr>]\<rparr>"
    unfolding st2_def using step_page_failure [OF assms(3), of mode base config sw st1] by blast
  obtain wc nc where
    s3: "st3 = st2\<lparr>next_number := nc, success_count := success_count st2 + 1,
          output_folder := (output_folder st2)(output_name (doc_name DC) \<mapsto> wc),
          report := report st2 @
            [\<lparr>file_name = doc_name DC,
              start = (if mode = ''1'' then base else next_number st2),
              outcome = Inr nc\<rparr>]\<rparr>"
    and lc: "length wc = length (doc_pages DC)"
    unfolding st3_def using step_ok [OF assms(1) assms(4), of mode base sw st2] by blast
  have f1: "success_count st1 = 1" "fail_count st1 = 0"
    "output_folder st1 = fs(output_name (doc_name DA) \<mapsto> wa)"
    "map outcome (report st1) = [Inr na]"
    by (simp_all add: s1 st0_def initial_batch_def)
  have f2: "success_count st2 = 1" "fail_count st2 = 1"
    "output_folder st2 = fs(output_name (doc_name DA) \<mapsto> wa)"
    "map outcome (report st2) = [Inr na, Inl e]"
    by (simp_all add: s2 f1)
  have f3: "success_count st3 = 2" "fail_count st3 = 1"
    "output_folder st3 =
       fs(output_name (doc_name DA) \<mapsto> wa, output_name (doc_name DC) \<mapsto> wc)"
    "map outcome (report st3) = [Inr na, Inl e, Inr nc]"
    by (simp_all add: s3 f2)
  show ?thesis
    unfolding run
    by (rule exI [of _ wa], rule exI [of _ wc], rule exI [of _ na], rule exI [of _ e],
        rule exI [of _ nc]) (simp add: f3 la lc)
qed

text \<open>
  Claim C3. A page that fails to render or merge fails its document only. The step of
  such a document adds one to the failure count and one line to the report, and changes
  nothing else: no file of the output folder is written or touched, and the success count
  stays. The loop goes on with the documents that follow, and at the end every document
  has one report line and is counted once, as a success or as a failure. In a batch
  of three documents where the second has a failing page and the other two can be
  processed, the outputs of the first and the third are written, the summary counts 2
  successes and 1 failure, and the report reads success, failure, success.
\<close>

theorem page_failure_isolated:
  "(\<not> list_all composable (doc_pages d) \<longrightarrow>
      (\<exists>e. batch_step mode base config sw st d =
         st\<lparr>fail_count := fail_count st + 1,
            report := report st @
              [\<lparr>file_name = doc_name d,
                start = (if mode = ''1'' then base else next_number st),
                outcome = Inl e\<rparr>]\<rparr>) \<and>
      output_folder (batch_step mode base config sw st d) = output_folder st \<and>
      success_count (batch_step mode base config sw st d) = success_count st \<and>
      fail_count (batch_step mode base config sw st d) = fail_count st + 1) \<and>
   run_batch mode base config sw fs (ds @ d # ds') =
     foldl (batch_step mode base config sw)
       (batch_step mode base config sw (run_batch mode base config sw fs ds) d) ds' \<and>
   success_count (run_batch mode base config sw fs docs) +
     fail_count (run_batch mode base config sw fs docs) = length docs \<and>
   length (report (run_batch mode base config sw fs docs)) = length docs \<and>
   (load_config (Some lines) = Inr config \<and> processable DA \<and>
    \<not> list_all composable (doc_pages DB) \<and> processable DC \<longrightarrow>
      (\<exists>wa wc na e nc.
         success_count (run_batch mode base config sw fs [DA, DB, DC]) = 2 \<and>
         fail_count (run_batch mode base config sw fs [DA, DB, DC]) = 1 \<and>
         output_folder (run_batch mode base config sw fs [DA, DB, DC]) =
           fs(output_name (doc_name DA) \<mapsto> wa, output_name (doc_name DC) \<mapsto> wc) \<and>
         length wa = length (doc_pages DA) \<and> length wc = length (doc_pages DC) \<and>
         map outcome (report (run_batch mode base config sw fs [DA, DB, DC])) =
           [Inr na, Inl e, Inr nc]))"
proof -
  have a: "(\<exists>e. batch_step mode base config sw st d =
         st\<lparr>fail_count := fail_count st + 1,
            report := report st @
              [\<lparr>file_name = doc_name d,
                start = (if mode = ''1'' then base else next_number st),
                outcome = Inl e\<rparr>]\<rparr>) \<and>
      output_folder (batch_step mode base config sw st d) = output_folder st \<and>
      success_count (batch_step mode base config sw st d) = success_count st \<and>
      fail_count (batch_step mode base config sw st d) = fail_count st + 1"
    if bad: "\<not> list_all composable (doc_pages d)"
  proof -
    obtain e where e: "batch_step mode base config sw st d =
         st\<lparr>fail_count := fail_count st + 1,
            report := report st @
              [\<lparr>file_name = doc_name d,
                start = (if mode = ''1'' then base else next_number st),
                outcome = Inl e\<rparr>]\<rparr>"
      using step_page_failure [OF bad] by blast
    have "output_folder (batch_step mode base config sw st d) = output_folder st"
      "success_count (batch_step mode base config sw st d) = success_count st"
      "fail_count (batch_step mode base config sw st d) = fail_count st + 1"
      by (simp_all add: e)
    with e show ?thesis by blast
  qed
  have b: "run_batch mode base config sw fs (ds @ d # ds') =
     foldl (batch_step mode base config sw)
       (batch_step mode base config sw (run_batch mode base config sw fs ds) d) ds'"
    by (simp add: run_batch_def)
  have c: "success_count (run_batch mode base config sw fs docs) +
     fail_count (run_batch mode base config sw fs docs) = length docs"
    by (rule run_counts)
  have d: "length (report (run_batch mode base config sw fs docs)) = length docs"
    by (rule length_report)
  have e: "\<exists>wa wc na e nc.
         success_count (run_batch mode base config sw fs [DA, DB, DC]) = 2 \<and>
         fail_count (run_batch mode base config sw fs [DA, DB, DC]) = 1 \<and>
         output_folder (run_batch mode base config sw fs [DA, DB, DC]) =
           fs(output_name (doc_name DA) \<mapsto> wa, output_name (doc_name DC) \<mapsto> wc) \<and>
         length wa = length (doc_pages DA) \<and> length wc = length (doc_pages DC) \<and>
         map outcome (report (run_batch mode base config sw fs [DA, DB, DC])) =
           [Inr na, Inl e, Inr nc]"
    if h: "load_config (Some lines) = Inr config \<and> processable DA \<and>
      \<not> list_all composable (doc_pages DB) \<and> processable DC"
  proof -
    from h have complete: "set required \<subseteq> dom config"
      using dom_load_config [of lines config] by simp
    from h have p: "processable DA" "\<not> list_all composable (doc_pages DB)" "processable DC"
      by simp_all
    show ?thesis by (rule three_documents [OF complete p])
  qed
  from a b c d e show ?thesis by blast
qed


theorem page_failure_isolated_witness:
  "(\<exists>wa wc na e nc.
      success_count
        (run_batch ''1'' 1 (\<lambda>k. if k \<in> set required then Some 0 else None)
           (\<lambda>s. 6 * real (length s)) Map.empty
           [\<lparr>doc_name = ''a.pdf'', readable = True,
             doc_pages = [\<lparr>page_width = 595, page_height = 842, composable = True\<rparr>],
             writable = True\<rparr>,
            \<lparr>doc_name = ''b.pdf'', readable = True,
             doc_pages = [\<lparr>page_width = 595, page_height = 842, composable = False\<rparr>],
             writable = True\<rparr>,
            \<lparr>doc_name = ''c.pdf'', readable = True,
             doc_pages = [\<lparr>page_width = 595, page_height = 842, composable = True\<rparr>],
             writable = True\<rparr>]) = 2 \<and>
      fail_count
        (run_batch ''1'' 1 (\<lambda>k. if k \<in> set required then Some 0 else None)
           (\<lambda>s. 6 * real (length s)) Map.empty
           [\<lparr>doc_name = ''a.pdf'', readable = True,
             doc_pages = [\<lparr>page_width = 595, page_height = 842, composable = True\<rparr>],
             writable = True\<rparr>,
            \<lparr>doc_name = ''b.pdf'', readable = True,
             doc_pages = [\<lparr>page_width = 595, page_height = 842, composable = False\<rparr>],
             writable = True\<rparr>,
            \<lparr>doc_name = ''c.pdf'', readable = True,
             doc_pages = [\<lparr>page_width = 595, page_height = 842, composable = True\<rparr>],
             writable = True\<rparr>]) = 1 \<and>
      output_folder
        (run_batch ''1'' 1 (\<lambda>k. if k \<in> set required then Some 0 else None)
           (\<lambda>s. 6 * real (length s)) Map.empty
           [\<lparr>doc_name = ''a.pdf'', readable = True,
             doc_pages = [\<lparr>page_width = 595, page_height = 842, composable = True\<rparr>],
             writable = True\<rparr>,
            \<lparr>doc_name = ''b.pdf'', readable = True,
             doc_pages = [\<lparr>page_width = 595, page_height = 842, composable = False\<rparr>],
             writable = True\<rparr>,
            \<lparr>doc_name = ''c.pdf'', readable = True,
             doc_pages = [\<lparr>page_width = 595, page_height = 842, composable = True\<rparr>],
             writable = True\<rparr>]) = [''a_numbered.pdf'' \<mapsto> wa, ''c_numbered.pdf'' \<mapsto> wc] \<and>
      map outcome (report
        (run_batch ''1'' 1 (\<lambda>k. if k \<in> set required then Some 0 else None)
           (\<lambda>s. 6 * real (length s)) Map.empty
           [\<lparr>doc_name = ''a.pdf'', readable = True,
             doc_pages = [\<lparr>page_width = 595, page_height = 842, composable = True\<rparr>],
             writable = True\<rparr>,
            \<lparr>doc_name = ''b.pdf'', readable = True,
             doc_pages = [\<lparr>page_width = 595, page_height = 842, composable = False\<rparr>],
             writable = True\<rparr>,
            \<lparr>doc_name = ''c.pdf'', readable = True,
             doc_pages = [\<lparr>page_width = 595, page_height = 842, composable = True\<rparr>],
             writable = True\<rparr>])) = [Inr na, Inl e, Inr nc]) \<and>
   output_folder
     (batch_step ''1'' 1 (\<lambda>k. if k \<in> set required then Some 0 else None)
        (\<lambda>s. 6 * real (length s)) (initial_batch 1 Map.empty)
        \<lparr>doc_name = ''b.pdf'', readable = True,
         doc_pages = [\<lparr>page_width = 595, page_height = 842, composable = False\<rparr>],
         writable = True\<rparr>) = Map.empty \<and>
   fail_count
     (batch_step ''1'' 1 (\<lambda>k. if k \<in> set required then Some 0 else None)
        (\<lambda>s. 6 * real (length s)) (initial_batch 1 Map.empty)
        \<lparr>doc_name = ''b.pdf'', readable = True,
         doc_pages = [\<lparr>page_width = 595, page_height = 842, composable = False\<rparr>],
         writable = True\<rparr>) = 1"
proof -
  define config :: config where "config = (\<lambda>k. if k \<in> set required then Some 0 else None)"
  define sw :: "string \<Rightarrow> real" where "sw = (\<lambda>s. 6 * real (length s))"
  define pg where "pg = \<lparr>page_width = 595, page_height = 842, composable = True\<rparr>"
  define bad where "bad = \<lparr>page_width = 595, page_height = 842, composable = False\<rparr>"
  define A where "A = \<lparr>doc_name = ''a.pdf'', readable = True, doc_pages = [pg], writable = True\<rparr>"
  define B where "B = \<lparr>doc_name = ''b.pdf'', readable = True, doc_pages = [bad], writable = True\<rparr>"
  define C where "C = \<lparr>doc_name = ''c.pdf'', readable = True, doc_pages = [pg], writable = True\<rparr>"
  have cfg: "load_config (Some []) = Inr config"
    unfolding config_def by (rule load_config_empty)
  have names: "output_name (doc_name A) = ''a_numbered.pdf''"
    "output_name (doc_name C) = ''c_numbered.pdf''"
    by (simp_all add: A_def C_def output_name_a output_name_c)
  have badB: "\<not> list_all composable (doc_pages B)" by (simp add: B_def bad_def)
  have h: "load_config (Some []) = Inr config \<and> processable A \<and>
    \<not> list_all composable (doc_pages B) \<and> processable C"
    by (simp add: cfg badB A_def C_def pg_def processable_def)
  note main = page_failure_isolated [where lines = "[]" and config = config and DA = A
        and DB = B and DC = C and sw = sw and fs = Map.empty and docs = "[]" and base = 1
        and st = "initial_batch 1 Map.empty" and d = B and mode = "''1''" and ds = "[]"
        and ds' = "[]"]
  have batch: "\<exists>wa wc na e nc.
         success_count (run_batch ''1'' 1 config sw Map.empty [A, B, C]) = 2 \<and>
         fail_count (run_batch ''1'' 1 config sw Map.empty [A, B, C]) = 1 \<and>
         output_folder (run_batch ''1'' 1 config sw Map.empty [A, B, C]) =
           [output_name (doc_name A) \<mapsto> wa, output_name (doc_name C) \<mapsto> wc] \<and>
         length wa = length (doc_pages A) \<and> length wc = length (doc_pages C) \<and>
         map outcome (report (run_batch ''1'' 1 config sw Map.empty [A, B, C])) =
           [Inr na, Inl e, Inr nc]"
    using h main by blast
  have step: "output_folder (batch_step ''1'' 1 config sw (initial_batch 1 Map.empty) B) =
      output_folder (initial_batch 1 Map.empty) \<and>
    fail_count (batch_step ''1'' 1 config sw (initial_batch 1 Map.empty) B) =
      fail_count (initial_batch 1 Map.empty) + 1"
    using badB main by blast
  then have step': "output_folder (batch_step ''1'' 1 config sw (initial_batch 1 Map.empty) B) =
      Map.empty \<and>
    fail_count (batch_step ''1'' 1 config sw (initial_batch 1 Map.empty) B) = 1"
    by (simp add: initial_batch_def)
  from batch have batch': "\<exists>wa wc na e nc.
         success_count (run_batch ''1'' 1 config sw Map.empty [A, B, C]) = 2 \<and>
         fail_count (run_batch ''1'' 1 config sw Map.empty [A, B, C]) = 1 \<and>
         output_folder (run_batch ''1'' 1 config sw Map.empty [A, B, C]) =
           [''a_numbered.pdf'' \<mapsto> wa, ''c_numbered.pdf'' \<mapsto> wc] \<and>
         map outcome (report (run_batch ''1'' 1 config sw Map.empty [A, B, C])) =
           [Inr na, Inl e, Inr nc]"
    unfolding names by (elim exE conjE) (intro exI conjI; assumption)
  from batch' step' have "(\<exists>wa wc na e nc.
         success_count (run_batch ''1'' 1 config sw Map.empty [A, B, C]) = 2 \<and>
         fail_count (run_batch ''1'' 1 config sw Map.empty [A, B, C]) = 1 \<and>
         output_folder (run_batch ''1'' 1 config sw Map.empty [A, B, C]) =
           [''a_numbered.pdf'' \<mapsto> wa, ''c_numbered.pdf'' \<mapsto> wc] \<and>
         map outcome (report (run_batch ''1'' 1 config sw Map.empty [A, B, C])) =
           [Inr na, Inl e, Inr nc]) \<and>
    output_folder (batch_step ''1'' 1 config sw (initial_batch 1 Map.empty) B) = Map.empty \<and>
    fail_count (batch_step ''1'' 1 config sw (initial_batch 1 Map.empty) B) = 1"
    by (rule conjI)
  then show ?thesis
    unfolding A_def B_def C_def config_def sw_def pg_def bad_def .
qed

end
